theory Spec2Isabelle
  imports Main "HOL-Library.Multiset" "HOL-Library.AList"
begin

section \<open>JavaScript values, strings and the sanitizers\<close>

text \<open>
  The store of \<^verbatim>\<open>src/store/useStore.js\<close> is embedded shallowly.  A JavaScript string
  is a \<^typ>\<open>string\<close>; the model covers the ASCII range, where \<^verbatim>\<open>trim\<close> removes the
  six ASCII white-space characters and \<^verbatim>\<open>toLowerCase\<close> maps \<^verbatim>\<open>A-Z\<close> to \<^verbatim>\<open>a-z\<close>.
  Values whose type the code inspects at run time (\<^verbatim>\<open>typeof\<close>, truthiness,
  \<^verbatim>\<open>Array.isArray\<close>) are values of \<open>jsval\<close>; numbers are integers, and \<open>JObj\<close> is
  any object that is not an array (the code never reads inside one).
\<close>

datatype jsval =
    JUndefined
  | JNull
  | JBool bool
  | JNum int
  | JStr string
  | JArr "jsval list"
  | JObj

text \<open>Truthiness, as \<^verbatim>\<open>!v\<close>, \<^verbatim>\<open>v && e\<close>, \<^verbatim>\<open>v || e\<close> and \<^verbatim>\<open>Boolean(v)\<close> read it.\<close>

fun truthy :: "jsval \<Rightarrow> bool" where
  "truthy JUndefined = False"
| "truthy JNull = False"
| "truthy (JBool b) = b"
| "truthy (JNum n) = (n \<noteq> 0)"
| "truthy (JStr s) = (s \<noteq> [])"
| "truthy (JArr _) = True"
| "truthy JObj = True"

definition is_space :: "char \<Rightarrow> bool" where
  "is_space c \<longleftrightarrow> c \<in> {CHR '' '', CHR 0x09, CHR 0x0A, CHR 0x0B, CHR 0x0C, CHR 0x0D}"

definition trim :: "string \<Rightarrow> string" where
  "trim s = rev (dropWhile is_space (rev (dropWhile is_space s)))"

definition lower_char :: "char \<Rightarrow> char" where
  "lower_char c =
     (let n = (of_char c :: nat) in if 65 \<le> n \<and> n \<le> 90 then char_of (n + 32) else c)"

definition toLowerCase :: "string \<Rightarrow> string" where
  "toLowerCase s = map lower_char s"

text \<open>\<^verbatim>\<open>h.includes(n)\<close>: \<open>n\<close> occurs in \<open>h\<close> as a contiguous block.\<close>

fun includes_str :: "string \<Rightarrow> string \<Rightarrow> bool" where
  "includes_str [] n = (n = [])"
| "includes_str (c # h) n = (take (length n) (c # h) = n \<or> includes_str h n)"

definition startsWith :: "string \<Rightarrow> string \<Rightarrow> bool" where
  "startsWith s p \<longleftrightarrow> take (length p) s = p"

text \<open>Decimal rendering of a number inside a template literal.\<close>

fun digits :: "nat \<Rightarrow> string" where
  "digits n =
     (if n < 10 then [char_of (48 + n)] else digits (n div 10) @ [char_of (48 + n mod 10)])"

definition EASY :: string where "EASY = ''Easy''"
definition MEDIUM :: string where "MEDIUM = ''Medium''"
definition HARD :: string where "HARD = ''Hard''"
definition BASIC :: string where "BASIC = ''Basic''"

definition DIFFICULTY_LEVELS :: "string list" where
  "DIFFICULTY_LEVELS = [EASY, MEDIUM, HARD, BASIC]"

definition FILTER_ALL :: string where "FILTER_ALL = ''all''"
definition FILTER_SOLVED :: string where "FILTER_SOLVED = ''solved''"
definition FILTER_UNSOLVED :: string where "FILTER_UNSOLVED = ''unsolved''"
definition THEME_DARK :: string where "THEME_DARK = ''dark''"
definition THEME_LIGHT :: string where "THEME_LIGHT = ''light''"

text \<open>
  \<^verbatim>\<open>generateId(prefix)\<close> is \<^verbatim>\<open>`${prefix}-${uuidv4()}`\<close>.  The random identifier drawn by
  the call is an argument of the model.
\<close>

definition generateId :: "string \<Rightarrow> string \<Rightarrow> string" where
  "generateId prefix uuid = prefix @ ''-'' @ uuid"

fun sanitizeString :: "jsval \<Rightarrow> string \<Rightarrow> string" where
  "sanitizeString (JStr s) fallback = (if trim s \<noteq> [] then trim s else fallback)"
| "sanitizeString _ fallback = fallback"

text \<open>
  \<^verbatim>\<open>validDifficulties.includes(difficulty) ? difficulty : MEDIUM\<close>: the result is always
  one of the four labels, so it is returned as a string.
\<close>

fun validateDifficulty :: "jsval \<Rightarrow> string" where
  "validateDifficulty (JStr s) = (if s \<in> set DIFFICULTY_LEVELS then s else MEDIUM)"
| "validateDifficulty _ = MEDIUM"

text \<open>
  \<^verbatim>\<open>new URL(trimmed)\<close> is the platform's URL parser; whether it accepts a string is the
  parameter \<open>parses\<close>.
\<close>

fun validateUrl :: "(string \<Rightarrow> bool) \<Rightarrow> jsval \<Rightarrow> string" where
  "validateUrl parses (JStr s) =
     (if s = [] then []
      else let trimmed = trim s in
        if trimmed = [] then []
        else if parses trimmed then trimmed
        else if startsWith trimmed ''http'' then trimmed else [])"
| "validateUrl parses _ = []"

section \<open>The tree\<close>

text \<open>
  Topics, subtopics and questions are objects with an \<^verbatim>\<open>id\<close> and an \<^verbatim>\<open>order\<close>;
  \<^verbatim>\<open>reorderArray\<close> works on any of them, so the three records extend one base record.
  The fields \<^verbatim>\<open>topic\<close>, \<^verbatim>\<open>subtopic\<close>, \<^verbatim>\<open>resource\<close> and \<^verbatim>\<open>tags\<close> exist on ingested
  questions only (\<^verbatim>\<open>addQuestion\<close> does not set them), hence the options.  The
  difficulty is kept as a \<open>jsval\<close>: the aggregator validates it again when it reads it.
  The field \<^verbatim>\<open>notes\<close> is \<open>q_notes\<close> and \<^verbatim>\<open>id\<close> is \<open>item_id\<close>.
\<close>

record item =
  item_id :: string
  order :: nat

record question = item +
  title :: string
  topic :: "string option"
  subtopic :: "string option"
  difficulty :: jsval
  url :: string
  resource :: "string option"
  tags :: "jsval list option"
  isSolved :: bool
  q_notes :: string

record named = item +
  name :: string

record subtopic = named +
  questions :: "question list"

record topic = named +
  subtopics :: "subtopic list"

section \<open>The reorder engine\<close>

text \<open>
  \<^verbatim>\<open>array.findIndex(x => x.id === id)\<close>: the index of the first element with that id,
  or \<open>-1\<close>.
\<close>

fun findIndex :: "('a item_scheme) list \<Rightarrow> string \<Rightarrow> int" where
  "findIndex [] i = -1"
| "findIndex (x # xs) i =
     (if item_id x = i then 0
      else let r = findIndex xs i in if r = -1 then -1 else r + 1)"

text \<open>
  The start position of \<^verbatim>\<open>Array.prototype.splice\<close>: a negative start counts from the
  end, and the result is clamped to \<open>0..length\<close>.
\<close>

definition splice_start :: "'a list \<Rightarrow> int \<Rightarrow> nat" where
  "splice_start xs start =
     (if start < 0 then nat (max (int (length xs) + start) 0)
      else nat (min start (int (length xs))))"

text \<open>\<^verbatim>\<open>xs.splice(start, 1)\<close>: the removed elements (at most one) and the array left.\<close>

definition splice_remove1 :: "'a list \<Rightarrow> int \<Rightarrow> 'a list \<times> 'a list" where
  "splice_remove1 xs start =
     (let k = splice_start xs start in (take 1 (drop k xs), take k xs @ drop (Suc k) xs))"

text \<open>\<^verbatim>\<open>xs.splice(start, 0, x)\<close>: the array with \<open>x\<close> inserted.\<close>

definition splice_insert :: "'a list \<Rightarrow> int \<Rightarrow> 'a \<Rightarrow> 'a list" where
  "splice_insert xs start x = (let k = splice_start xs start in take k xs @ [x] @ drop k xs)"

text \<open>\<^verbatim>\<open>result.map((item, index) => ({ ...item, order: index }))\<close>\<close>

definition renumber :: "('a item_scheme) list \<Rightarrow> ('a item_scheme) list" where
  "renumber xs = map (\<lambda>(index, item). item\<lparr>order := index\<rparr>) (enumerate 0 xs)"

text \<open>
  \<^verbatim>\<open>reorderArray\<close>.  When \<open>oldIndex\<close> lies beyond the end, \<^verbatim>\<open>splice\<close> removes nothing
  and the source inserts \<^verbatim>\<open>undefined\<close>, which the final \<^verbatim>\<open>map\<close> turns into an object
  holding an \<^verbatim>\<open>order\<close> only.  The typed tree has no such element; in that case the
  model inserts nothing.  No caller reaches it: the three reorder actions pass indices
  that \<open>findIndex\<close> returned and that are not \<open>-1\<close>.
\<close>

definition reorderArray :: "('a item_scheme) list \<Rightarrow> int \<Rightarrow> int \<Rightarrow> ('a item_scheme) list" where
  "reorderArray array oldIndex newIndex =
     (if oldIndex = -1 \<or> newIndex = -1 \<or> oldIndex = newIndex then array
      else
        let (removed, result) = splice_remove1 array oldIndex;
            result = (case removed of [] \<Rightarrow> result | r # _ \<Rightarrow> splice_insert result newIndex r)
        in renumber result)"

section \<open>Ingest\<close>

text \<open>
  The input document of \<^verbatim>\<open>transformSheetData\<close>, a value read from JSON.  A field the
  code passes through a sanitizer is a \<open>jsval\<close>; \<^verbatim>\<open>_id\<close> is an optional string; a missing
  or falsy object is \<open>None\<close>.  A record of which the code only reads fields (a question,
  the sheet) may be any truthy value: one that is not an object reads as the record with
  every field \<^verbatim>\<open>undefined\<close>.
\<close>

record raw_meta =
  raw_difficulty :: jsval
  problemUrl :: jsval
  raw_topics :: jsval

record raw_question =
  raw_id :: "string option"
  raw_title :: jsval
  raw_topic :: jsval
  subTopic :: jsval
  raw_resource :: jsval
  raw_isSolved :: jsval
  raw_questionId :: "raw_meta option"

record raw_sheet =
  rs_id :: "string option"
  rs_name :: jsval
  rs_description :: jsval
  rs_author :: jsval
  rs_followers :: jsval
  rs_banner :: jsval
  rs_link :: jsval
  rs_tag :: jsval

text \<open>
  The value of \<^verbatim>\<open>data.questions\<close> when it is truthy: an array, whose entries are records
  or \<^verbatim>\<open>null\<close> (\<open>None\<close>), or a value that is not an array (an object, a string, a number,
  \<^verbatim>\<open>true\<close>) and has no \<^verbatim>\<open>forEach\<close>.
\<close>

datatype raw_collection = NotAnArray | ArrayOf "raw_question option list"

record raw_data =
  raw_sheet :: "raw_sheet option"
  raw_questions :: "raw_collection option"

record raw_doc =
  data :: "raw_data option"

record sheet_rec =
  sheet_id :: string
  sheet_name :: string
  description :: string
  author :: string
  followers :: int
  banner :: string
  link :: string
  sheet_tags :: "string list"

text \<open>
  What the transform throws: the \<^verbatim>\<open>Error\<close> of its own guard, or the \<^verbatim>\<open>TypeError\<close> the
  engine raises on \<^verbatim>\<open>questions.forEach\<close> of a value without that method and on \<^verbatim>\<open>q.topic\<close>
  of a \<^verbatim>\<open>null\<close> entry.  Both are instances of \<^verbatim>\<open>Error\<close> and carry a message; the wording of
  the engine's messages is that of V8.
\<close>

datatype error = Error string | TypeError string

fun message :: "error \<Rightarrow> string" where
  "message (Error m) = m"
| "message (TypeError m) = m"

text \<open>
  The value of \<^verbatim>\<open>topicsMap\<close>: a \<^verbatim>\<open>Map\<close> from names to topic objects whose
  \<^verbatim>\<open>subtopics\<close> is again a \<^verbatim>\<open>Map\<close>.  A \<^verbatim>\<open>Map\<close> iterates in insertion order, so it is
  an association list; \<open>AList.update\<close> is \<^verbatim>\<open>Map.set\<close> (replace in place, or append a new
  key), and the keys stay distinct, so \<^verbatim>\<open>size\<close> is the length.
\<close>

record topic_acc = named +
  acc_subtopics :: "(string \<times> subtopic) list"

text \<open>\<^verbatim>\<open>q._id || generateId('question')\<close>, with \<open>k\<close> identifiers drawn so far.\<close>

definition id_or_generate ::
  "string \<Rightarrow> (nat \<Rightarrow> string) \<Rightarrow> nat \<Rightarrow> string option \<Rightarrow> string \<times> nat" where
  "id_or_generate prefix uuids k i =
     (case i of
        Some v \<Rightarrow> if v \<noteq> [] then (v, k) else (generateId prefix (uuids k), Suc k)
      | None \<Rightarrow> (generateId prefix (uuids k), Suc k))"

text \<open>The object pushed for a record, apart from its \<^verbatim>\<open>order\<close>, which is passed in.\<close>

definition make_question ::
  "(string \<Rightarrow> bool) \<Rightarrow> raw_question \<Rightarrow> string \<Rightarrow> string \<Rightarrow> string \<Rightarrow> nat \<Rightarrow> question" where
  "make_question parses q qid topicName subtopicName n =
     \<lparr> item_id = qid,
       order = n,
       title = sanitizeString (raw_title q) ''Untitled Question'',
       topic = Some topicName,
       subtopic = Some subtopicName,
       difficulty =
         JStr (validateDifficulty
                 (case raw_questionId q of None \<Rightarrow> JUndefined | Some m \<Rightarrow> raw_difficulty m)),
       url = validateUrl parses
               (case raw_questionId q of None \<Rightarrow> JUndefined | Some m \<Rightarrow> problemUrl m),
       resource = Some (sanitizeString (raw_resource q) []),
       tags = Some (case raw_questionId q of
                      None \<Rightarrow> []
                    | Some m \<Rightarrow> (case raw_topics m of JArr ts \<Rightarrow> ts | _ \<Rightarrow> [])),
       isSolved = truthy (raw_isSolved q),
       q_notes = [] \<rparr>"

text \<open>
  One round of \<^verbatim>\<open>questions.forEach\<close>.  The source sets a new topic (subtopic) into the
  map, gets it back and pushes onto the array the object holds; here the object is
  looked up or made, extended, and written back under its key, which leaves the same map.
\<close>

definition ingest_step ::
  "(string \<Rightarrow> bool) \<Rightarrow> (nat \<Rightarrow> string) \<Rightarrow>
   (string \<times> topic_acc) list \<times> nat \<Rightarrow> raw_question \<Rightarrow> (string \<times> topic_acc) list \<times> nat" where
  "ingest_step parses uuids st q =
     (let (topicsMap, k) = st;
          topicName = sanitizeString (raw_topic q) ''General'';
          subtopicName = sanitizeString (subTopic q) ''General'';
          topic =
            (case map_of topicsMap topicName of
               Some t \<Rightarrow> t
             | None \<Rightarrow> \<lparr> item_id = ''topic-'' @ digits (length topicsMap),
                         order = length topicsMap,
                         name = topicName,
                         acc_subtopics = [] \<rparr>);
          subs = acc_subtopics topic;
          subtopic =
            (case map_of subs subtopicName of
               Some s \<Rightarrow> s
             | None \<Rightarrow> \<lparr> item_id = ''subtopic-'' @ item_id topic @ ''-'' @ digits (length subs),
                         order = length subs,
                         name = subtopicName,
                         questions = [] \<rparr>);
          (qid, k') = id_or_generate ''question'' uuids k (raw_id q);
          pushed = subtopic\<lparr>questions := questions subtopic @
                     [make_question parses q qid topicName subtopicName
                        (length (questions subtopic))]\<rparr>
      in (AList.update topicName
            (topic\<lparr>acc_subtopics := AList.update subtopicName pushed subs\<rparr>) topicsMap, k'))"

text \<open>\<^verbatim>\<open>{ ...topic, subtopics: Array.from(topic.subtopics.values()) }\<close>\<close>

definition finish_topic :: "topic_acc \<Rightarrow> topic" where
  "finish_topic t =
     \<lparr> item_id = item_id t, order = order t, name = name t,
       subtopics = map snd (acc_subtopics t) \<rparr>"

definition make_sheet :: "(string \<Rightarrow> bool) \<Rightarrow> raw_sheet \<Rightarrow> string \<Rightarrow> sheet_rec" where
  "make_sheet parses sh sid =
     \<lparr> sheet_id = sid,
       sheet_name = sanitizeString (rs_name sh) ''Question Sheet'',
       description = sanitizeString (rs_description sh) [],
       author = sanitizeString (rs_author sh) [],
       followers = (case rs_followers sh of JNum n \<Rightarrow> n | _ \<Rightarrow> 0),
       banner = sanitizeString (rs_banner sh) [],
       link = validateUrl parses (rs_link sh),
       sheet_tags =
         (case rs_tag sh of
            JArr ts \<Rightarrow> concat (map (\<lambda>t. case t of JStr x \<Rightarrow> [x] | _ \<Rightarrow> []) ts)
          | _ \<Rightarrow> []) \<rparr>"

text \<open>
  \<^verbatim>\<open>questions.forEach((q) => ...)\<close> on an array: the rounds in sequence; the round of a
  \<^verbatim>\<open>null\<close> entry throws at \<^verbatim>\<open>q.topic\<close>, which ends the loop and the transform.
\<close>

fun ingest_all ::
  "(string \<Rightarrow> bool) \<Rightarrow> (nat \<Rightarrow> string) \<Rightarrow> (string \<times> topic_acc) list \<times> nat \<Rightarrow>
   raw_question option list \<Rightarrow> error + (string \<times> topic_acc) list \<times> nat" where
  "ingest_all parses uuids st [] = Inr st"
| "ingest_all parses uuids st (None # es) =
     Inl (TypeError ''Cannot read properties of null (reading 'topic')'')"
| "ingest_all parses uuids st (Some q # es) =
     ingest_all parses uuids (ingest_step parses uuids st q) es"

text \<open>
  \<^verbatim>\<open>transformSheetData\<close>.  A \<^verbatim>\<open>throw\<close> is the result \<open>Inl\<close>.  \<open>uuids\<close> is the sequence
  of identifiers \<^verbatim>\<open>uuidv4()\<close> returns, in the order of the calls.
\<close>

definition transformSheetData ::
  "(string \<Rightarrow> bool) \<Rightarrow> (nat \<Rightarrow> string) \<Rightarrow> raw_doc option \<Rightarrow> error + (sheet_rec \<times> topic list)" where
  "transformSheetData parses uuids rawData =
     (case rawData of
        None \<Rightarrow> Inl (Error ''Invalid sheet data format'')
      | Some doc \<Rightarrow>
     (case data doc of
        None \<Rightarrow> Inl (Error ''Invalid sheet data format'')
      | Some d \<Rightarrow>
     (case raw_sheet d of
        None \<Rightarrow> Inl (Error ''Invalid sheet data format'')
      | Some sh \<Rightarrow>
     (case raw_questions d of
        None \<Rightarrow> Inl (Error ''Invalid sheet data format'')
      | Some NotAnArray \<Rightarrow> Inl (TypeError ''questions.forEach is not a function'')
      | Some (ArrayOf entries) \<Rightarrow>
     (case ingest_all parses uuids ([], 0) entries of
        Inl e \<Rightarrow> Inl e
      | Inr (topicsMap, k) \<Rightarrow>
          let topics = map (\<lambda>(_, t). finish_topic t) topicsMap;
              (sid, _) = id_or_generate ''sheet'' uuids k (rs_id sh)
          in Inr (make_sheet parses sh sid, topics))))))"

section \<open>The store\<close>

text \<open>
  The state object of the store.  \<^verbatim>\<open>set({...})\<close> replaces the named fields and keeps
  the others; an action that returns early leaves the state as it is.  An id argument is
  a string, falsy when empty.
\<close>

record state =
  sheet :: "sheet_rec option"
  topics :: "topic list"
  expandedTopics :: "string \<rightharpoonup> bool"
  expandedSubtopics :: "string \<rightharpoonup> bool"
  loading :: bool
  error :: "string option"
  searchQuery :: string
  filterDifficulty :: string
  filterStatus :: string
  theme :: string
  showStats :: bool

definition initial_state :: state where
  "initial_state =
     \<lparr> sheet = None, topics = [], expandedTopics = Map.empty, expandedSubtopics = Map.empty,
       loading = True, error = None, searchQuery = [], filterDifficulty = FILTER_ALL,
       filterStatus = FILTER_ALL, theme = THEME_DARK, showStats = False \<rparr>"

text \<open>
  \<^verbatim>\<open>fetchSheetData\<close>; the imported document \<^verbatim>\<open>sheetData\<close> is the argument \<open>sheetData\<close>.
  Whatever the transform throws is an \<^verbatim>\<open>Error\<close>, so the \<^verbatim>\<open>catch\<close> stores its message.
\<close>

definition fetchSheetData ::
  "(string \<Rightarrow> bool) \<Rightarrow> (nat \<Rightarrow> string) \<Rightarrow> raw_doc option \<Rightarrow> state \<Rightarrow> state" where
  "fetchSheetData parses uuids sheetData s =
     (if length (topics s) > 0 \<and> \<not> loading s then s
      else
        let s1 = s\<lparr>loading := True, error := None\<rparr> in
        case transformSheetData parses uuids sheetData of
          Inr (sh, ts) \<Rightarrow> s1\<lparr>sheet := Some sh, topics := ts, loading := False\<rparr>
        | Inl e \<Rightarrow> s1\<lparr>error := Some (message e), loading := False\<rparr>)"

text \<open>
  \<^verbatim>\<open>resetProgress\<close>, up to the end of the synchronous call; the fetch it schedules with
  \<^verbatim>\<open>setTimeout\<close> is a later \<open>fetchSheetData\<close>.
\<close>

definition resetProgress :: "state \<Rightarrow> state" where
  "resetProgress s = s\<lparr>topics := [], sheet := None, loading := True, error := None\<rparr>"

text \<open>\<^verbatim>\<open>!expanded[id]\<close>: a missing entry reads as \<^verbatim>\<open>undefined\<close>, which is falsy.\<close>

definition flip_entry :: "(string \<rightharpoonup> bool) \<Rightarrow> string \<Rightarrow> (string \<rightharpoonup> bool)" where
  "flip_entry m k = m(k \<mapsto> \<not> (case m k of Some b \<Rightarrow> b | None \<Rightarrow> False))"

definition toggleTopicExpansion :: "string \<Rightarrow> state \<Rightarrow> state" where
  "toggleTopicExpansion topicId s =
     (if topicId = [] then s else s\<lparr>expandedTopics := flip_entry (expandedTopics s) topicId\<rparr>)"

definition toggleSubtopicExpansion :: "string \<Rightarrow> state \<Rightarrow> state" where
  "toggleSubtopicExpansion subtopicId s =
     (if subtopicId = [] then s
      else s\<lparr>expandedSubtopics := flip_entry (expandedSubtopics s) subtopicId\<rparr>)"

definition expandAllTopics :: "state \<Rightarrow> state" where
  "expandAllTopics s = s\<lparr>expandedTopics := map_of (map (\<lambda>t. (item_id t, True)) (rev (topics s)))\<rparr>"

definition collapseAllTopics :: "state \<Rightarrow> state" where
  "collapseAllTopics s = s\<lparr>expandedTopics := Map.empty\<rparr>"

definition setSearchQuery :: "jsval \<Rightarrow> state \<Rightarrow> state" where
  "setSearchQuery query s = s\<lparr>searchQuery := (case query of JStr q \<Rightarrow> q | _ \<Rightarrow> [])\<rparr>"

definition setFilterDifficulty :: "string \<Rightarrow> state \<Rightarrow> state" where
  "setFilterDifficulty d s = s\<lparr>filterDifficulty := (if d \<noteq> [] then d else FILTER_ALL)\<rparr>"

definition setFilterStatus :: "string \<Rightarrow> state \<Rightarrow> state" where
  "setFilterStatus status s = s\<lparr>filterStatus := (if status \<noteq> [] then status else FILTER_ALL)\<rparr>"

definition toggleTheme :: "state \<Rightarrow> state" where
  "toggleTheme s = s\<lparr>theme := (if theme s = THEME_DARK then THEME_LIGHT else THEME_DARK)\<rparr>"

definition toggleStats :: "state \<Rightarrow> state" where
  "toggleStats s = s\<lparr>showStats := \<not> showStats s\<rparr>"

subsection \<open>Question actions\<close>

definition toggleQuestionSolved :: "string \<Rightarrow> state \<Rightarrow> state" where
  "toggleQuestionSolved questionId s =
     (if questionId = [] then s
      else s\<lparr>topics :=
        map (\<lambda>topic. topic\<lparr>subtopics :=
          map (\<lambda>subtopic. subtopic\<lparr>questions :=
            map (\<lambda>q. if item_id q = questionId then q\<lparr>isSolved := \<not> isSolved q\<rparr> else q)
              (questions subtopic)\<rparr>)
            (subtopics topic)\<rparr>)
          (topics s)\<rparr>)"

text \<open>
  \<^verbatim>\<open>updateTopicsNested\<close> with \<^verbatim>\<open>questionId\<close> undefined, the only way the store calls it:
  the updater is applied to the subtopics selected; a falsy id selects every element.
\<close>

definition updateTopicsNested ::
  "topic list \<Rightarrow> string \<Rightarrow> string \<Rightarrow> (subtopic \<Rightarrow> subtopic) \<Rightarrow> topic list" where
  "updateTopicsNested ts topicId subtopicId updater =
     map (\<lambda>topic.
       if topicId \<noteq> [] \<and> item_id topic \<noteq> topicId then topic
       else topic\<lparr>subtopics :=
         map (\<lambda>subtopic.
           if subtopicId \<noteq> [] \<and> item_id subtopic \<noteq> subtopicId then subtopic
           else updater subtopic)
           (subtopics topic)\<rparr>) ts"

definition toggleAllInSubtopic :: "string \<Rightarrow> string \<Rightarrow> jsval \<Rightarrow> state \<Rightarrow> state" where
  "toggleAllInSubtopic topicId subtopicId solved s =
     (if topicId = [] \<or> subtopicId = [] then s
      else s\<lparr>topics :=
        updateTopicsNested (topics s) topicId subtopicId
          (\<lambda>subtopic. subtopic\<lparr>questions :=
             map (\<lambda>q. q\<lparr>isSolved := truthy solved\<rparr>) (questions subtopic)\<rparr>)\<rparr>)"

definition updateQuestionNotes :: "string \<Rightarrow> jsval \<Rightarrow> state \<Rightarrow> state" where
  "updateQuestionNotes questionId notes s =
     (if questionId = [] then s
      else s\<lparr>topics :=
        map (\<lambda>topic. topic\<lparr>subtopics :=
          map (\<lambda>subtopic. subtopic\<lparr>questions :=
            map (\<lambda>q. if item_id q = questionId then q\<lparr>q_notes := sanitizeString notes []\<rparr> else q)
              (questions subtopic)\<rparr>)
            (subtopics topic)\<rparr>)
          (topics s)\<rparr>)"

subsection \<open>Topic actions\<close>

text \<open>An action that calls \<^verbatim>\<open>generateId\<close> takes the identifier drawn as \<open>uuid\<close>.\<close>

definition addTopic :: "string \<Rightarrow> jsval \<Rightarrow> state \<Rightarrow> state" where
  "addTopic uuid nm s =
     (let sanitizedName = sanitizeString nm [] in
      if sanitizedName = [] then s
      else s\<lparr>topics := topics s @
        [\<lparr> item_id = generateId ''topic'' uuid, order = length (topics s),
           name = sanitizedName, subtopics = [] \<rparr>]\<rparr>)"

definition updateTopic :: "string \<Rightarrow> jsval \<Rightarrow> state \<Rightarrow> state" where
  "updateTopic topicId nm s =
     (let sanitizedName = sanitizeString nm [] in
      if topicId = [] \<or> sanitizedName = [] then s
      else s\<lparr>topics :=
        map (\<lambda>t. if item_id t = topicId then t\<lparr>name := sanitizedName\<rparr> else t) (topics s)\<rparr>)"

definition deleteTopic :: "string \<Rightarrow> state \<Rightarrow> state" where
  "deleteTopic topicId s =
     (if topicId = [] then s
      else
        let newExpanded = (expandedTopics s)(topicId := None) in
        s\<lparr>topics := filter (\<lambda>t. item_id t \<noteq> topicId) (topics s),
          expandedTopics := newExpanded\<rparr>)"

subsection \<open>Subtopic actions\<close>

definition addSubtopic :: "string \<Rightarrow> string \<Rightarrow> jsval \<Rightarrow> state \<Rightarrow> state" where
  "addSubtopic uuid topicId nm s =
     (let sanitizedName = sanitizeString nm [] in
      if topicId = [] \<or> sanitizedName = [] then s
      else s\<lparr>topics :=
        map (\<lambda>t.
          if item_id t \<noteq> topicId then t
          else t\<lparr>subtopics := subtopics t @
            [\<lparr> item_id = generateId ''subtopic'' uuid, order = length (subtopics t),
               name = sanitizedName, questions = [] \<rparr>]\<rparr>)
          (topics s)\<rparr>)"

definition updateSubtopic :: "string \<Rightarrow> string \<Rightarrow> jsval \<Rightarrow> state \<Rightarrow> state" where
  "updateSubtopic topicId subtopicId nm s =
     (let sanitizedName = sanitizeString nm [] in
      if topicId = [] \<or> subtopicId = [] \<or> sanitizedName = [] then s
      else s\<lparr>topics :=
        map (\<lambda>t.
          if item_id t \<noteq> topicId then t
          else t\<lparr>subtopics :=
            map (\<lambda>sb. if item_id sb = subtopicId then sb\<lparr>name := sanitizedName\<rparr> else sb)
              (subtopics t)\<rparr>)
          (topics s)\<rparr>)"

definition deleteSubtopic :: "string \<Rightarrow> string \<Rightarrow> state \<Rightarrow> state" where
  "deleteSubtopic topicId subtopicId s =
     (if topicId = [] \<or> subtopicId = [] then s
      else
        let newExpanded = (expandedSubtopics s)(subtopicId := None) in
        s\<lparr>topics :=
            map (\<lambda>t.
              if item_id t \<noteq> topicId then t
              else t\<lparr>subtopics := filter (\<lambda>sb. item_id sb \<noteq> subtopicId) (subtopics t)\<rparr>)
              (topics s),
          expandedSubtopics := newExpanded\<rparr>)"

subsection \<open>Question CRUD\<close>

text \<open>
  The \<^verbatim>\<open>questionData\<close> argument of \<^verbatim>\<open>addQuestion\<close> and \<^verbatim>\<open>updateQuestion\<close>: the three
  fields the store reads.  A field that is absent reads as \<open>JUndefined\<close>; a falsy
  \<^verbatim>\<open>questionData\<close> is \<open>None\<close>.
\<close>

record question_data =
  data_title :: jsval
  data_difficulty :: jsval
  data_url :: jsval

definition addQuestion ::
  "(string \<Rightarrow> bool) \<Rightarrow> string \<Rightarrow> string \<Rightarrow> string \<Rightarrow> question_data option \<Rightarrow> state \<Rightarrow> state" where
  "addQuestion parses uuid topicId subtopicId questionData s =
     (case questionData of
        None \<Rightarrow> s
      | Some qd \<Rightarrow>
          if topicId = [] \<or> subtopicId = [] then s
          else
            let ttl = sanitizeString (data_title qd) [] in
            if ttl = [] then s
            else s\<lparr>topics :=
              map (\<lambda>t.
                if item_id t \<noteq> topicId then t
                else t\<lparr>subtopics :=
                  map (\<lambda>sb.
                    if item_id sb \<noteq> subtopicId then sb
                    else sb\<lparr>questions := questions sb @
                      [\<lparr> item_id = generateId ''question'' uuid,
                         order = length (questions sb),
                         title = ttl,
                         topic = None,
                         subtopic = None,
                         difficulty = JStr (validateDifficulty (data_difficulty qd)),
                         url = validateUrl parses (data_url qd),
                         resource = None,
                         tags = None,
                         isSolved = False,
                         q_notes = [] \<rparr>]\<rparr>)
                    (subtopics t)\<rparr>)
                (topics s)\<rparr>)"

text \<open>
  The object \<^verbatim>\<open>updateQuestion\<close> builds for the question found: the spread of
  \<^verbatim>\<open>questionData.title && {...}\<close> adds the title when \<^verbatim>\<open>questionData.title\<close> is truthy, the
  same for the difficulty, and the url is added when it is not \<^verbatim>\<open>undefined\<close>.
\<close>

definition merge_question :: "(string \<Rightarrow> bool) \<Rightarrow> question_data \<Rightarrow> question \<Rightarrow> question" where
  "merge_question parses qd q =
     (let q1 = (if truthy (data_title qd)
                then q\<lparr>title := sanitizeString (data_title qd) []\<rparr> else q);
          q2 = (if truthy (data_difficulty qd)
                then q1\<lparr>difficulty := JStr (validateDifficulty (data_difficulty qd))\<rparr> else q1);
          q3 = (if data_url qd \<noteq> JUndefined
                then q2\<lparr>url := validateUrl parses (data_url qd)\<rparr> else q2)
      in q3)"

definition updateQuestion ::
  "(string \<Rightarrow> bool) \<Rightarrow> string \<Rightarrow> string \<Rightarrow> string \<Rightarrow> question_data option \<Rightarrow> state \<Rightarrow> state" where
  "updateQuestion parses topicId subtopicId questionId questionData s =
     (case questionData of
        None \<Rightarrow> s
      | Some qd \<Rightarrow>
          if topicId = [] \<or> subtopicId = [] \<or> questionId = [] then s
          else s\<lparr>topics :=
            map (\<lambda>t.
              if item_id t \<noteq> topicId then t
              else t\<lparr>subtopics :=
                map (\<lambda>sb.
                  if item_id sb \<noteq> subtopicId then sb
                  else sb\<lparr>questions :=
                    map (\<lambda>q. if item_id q \<noteq> questionId then q else merge_question parses qd q)
                      (questions sb)\<rparr>)
                  (subtopics t)\<rparr>)
              (topics s)\<rparr>)"

definition deleteQuestion :: "string \<Rightarrow> string \<Rightarrow> string \<Rightarrow> state \<Rightarrow> state" where
  "deleteQuestion topicId subtopicId questionId s =
     (if topicId = [] \<or> subtopicId = [] \<or> questionId = [] then s
      else s\<lparr>topics :=
        map (\<lambda>t.
          if item_id t \<noteq> topicId then t
          else t\<lparr>subtopics :=
            map (\<lambda>sb.
              if item_id sb \<noteq> subtopicId then sb
              else sb\<lparr>questions := filter (\<lambda>q. item_id q \<noteq> questionId) (questions sb)\<rparr>)
              (subtopics t)\<rparr>)
          (topics s)\<rparr>)"

subsection \<open>Reorder actions\<close>

definition reorderTopics :: "string \<Rightarrow> string \<Rightarrow> state \<Rightarrow> state" where
  "reorderTopics activeId overId s =
     (if activeId = [] \<or> overId = [] \<or> activeId = overId then s
      else
        let oldIndex = findIndex (topics s) activeId;
            newIndex = findIndex (topics s) overId
        in if oldIndex \<noteq> -1 \<and> newIndex \<noteq> -1
           then s\<lparr>topics := reorderArray (topics s) oldIndex newIndex\<rparr>
           else s)"

definition reorderSubtopics :: "string \<Rightarrow> string \<Rightarrow> string \<Rightarrow> state \<Rightarrow> state" where
  "reorderSubtopics topicId activeId overId s =
     (if topicId = [] \<or> activeId = [] \<or> overId = [] \<or> activeId = overId then s
      else s\<lparr>topics :=
        map (\<lambda>t.
          if item_id t \<noteq> topicId then t
          else
            let oldIndex = findIndex (subtopics t) activeId;
                newIndex = findIndex (subtopics t) overId
            in if oldIndex = -1 \<or> newIndex = -1 then t
               else t\<lparr>subtopics := reorderArray (subtopics t) oldIndex newIndex\<rparr>)
          (topics s)\<rparr>)"

definition reorderQuestions :: "string \<Rightarrow> string \<Rightarrow> string \<Rightarrow> string \<Rightarrow> state \<Rightarrow> state" where
  "reorderQuestions topicId subtopicId activeId overId s =
     (if topicId = [] \<or> subtopicId = [] \<or> activeId = [] \<or> overId = [] \<or> activeId = overId
      then s
      else s\<lparr>topics :=
        map (\<lambda>t.
          if item_id t \<noteq> topicId then t
          else t\<lparr>subtopics :=
            map (\<lambda>sb.
              if item_id sb \<noteq> subtopicId then sb
              else
                let oldIndex = findIndex (questions sb) activeId;
                    newIndex = findIndex (questions sb) overId
                in if oldIndex = -1 \<or> newIndex = -1 then sb
                   else sb\<lparr>questions := reorderArray (questions sb) oldIndex newIndex\<rparr>)
              (subtopics t)\<rparr>)
          (topics s)\<rparr>)"

section \<open>Selectors\<close>

text \<open>
  \<^verbatim>\<open>calculateDetailedStats\<close>.  \<^verbatim>\<open>byDifficulty\<close> is an object with the four labels as
  keys, here an association list in the order of the literal; an entry is updated when
  the key is there (\<^verbatim>\<open>if (stats.byDifficulty[difficulty])\<close>).  The tree is typed, so
  the guards for a missing \<^verbatim>\<open>subtopics\<close> or \<^verbatim>\<open>questions\<close> array never fire.
\<close>

record counts =
  total :: nat
  solved :: nat

record topic_counts = counts +
  tc_name :: string

record stats = counts +
  byDifficulty :: "(string \<times> counts) list"
  byTopic :: "topic_counts list"

definition bump_bucket ::
  "(counts \<Rightarrow> counts) \<Rightarrow> string \<Rightarrow> (string \<times> counts) list \<Rightarrow> (string \<times> counts) list" where
  "bump_bucket f d m = (case map_of m d of None \<Rightarrow> m | Some c \<Rightarrow> AList.update d (f c) m)"

text \<open>The body of the innermost loop, on the pair of \<^verbatim>\<open>stats\<close> and \<^verbatim>\<open>topicStats\<close>.\<close>

definition count_question :: "stats \<times> topic_counts \<Rightarrow> question \<Rightarrow> stats \<times> topic_counts" where
  "count_question acc q =
     (let (st, ts) = acc;
          st = st\<lparr>total := total st + 1\<rparr>;
          ts = ts\<lparr>total := total ts + 1\<rparr>;
          d = validateDifficulty (difficulty q);
          st = st\<lparr>byDifficulty := bump_bucket (\<lambda>c. c\<lparr>total := total c + 1\<rparr>) d (byDifficulty st)\<rparr>
      in if isSolved q
         then (st\<lparr>solved := solved st + 1,
                  byDifficulty := bump_bucket (\<lambda>c. c\<lparr>solved := solved c + 1\<rparr>) d (byDifficulty st)\<rparr>,
               ts\<lparr>solved := solved ts + 1\<rparr>)
         else (st, ts))"

definition count_subtopic :: "stats \<times> topic_counts \<Rightarrow> subtopic \<Rightarrow> stats \<times> topic_counts" where
  "count_subtopic acc sb = foldl count_question acc (questions sb)"

definition count_topic :: "stats \<Rightarrow> topic \<Rightarrow> stats" where
  "count_topic st t =
     (let topicStats = \<lparr> total = 0, solved = 0, tc_name = name t \<rparr>;
          (st, topicStats) = foldl count_subtopic (st, topicStats) (subtopics t)
      in st\<lparr>byTopic := byTopic st @ [topicStats]\<rparr>)"

definition calculateDetailedStats :: "topic list \<Rightarrow> stats" where
  "calculateDetailedStats ts =
     foldl count_topic
       \<lparr> total = 0, solved = 0,
         byDifficulty =
           [(EASY, \<lparr>total = 0, solved = 0\<rparr>), (MEDIUM, \<lparr>total = 0, solved = 0\<rparr>),
            (HARD, \<lparr>total = 0, solved = 0\<rparr>), (BASIC, \<lparr>total = 0, solved = 0\<rparr>)],
         byTopic = [] \<rparr> ts"

text \<open>
  \<^verbatim>\<open>filterQuestions\<close>.  An entry of the array may be \<^verbatim>\<open>null\<close> (\<open>None\<close>), which the
  filter drops.
\<close>

definition filterQuestions ::
  "question option list \<Rightarrow> string \<Rightarrow> string \<Rightarrow> string \<Rightarrow> question option list" where
  "filterQuestions qs search filterDiff filterStat =
     (let normalizedSearch = trim (toLowerCase search) in
      filter (\<lambda>e.
        case e of
          None \<Rightarrow> False
        | Some q \<Rightarrow>
            if normalizedSearch \<noteq> [] \<and> \<not> includes_str (toLowerCase (title q)) normalizedSearch
            then False
            else if (filterDiff \<noteq> [] \<and> filterDiff \<noteq> FILTER_ALL) \<and> difficulty q \<noteq> JStr filterDiff
            then False
            else if filterStat = FILTER_SOLVED \<and> \<not> isSolved q then False
            else if filterStat = FILTER_UNSOLVED \<and> isSolved q then False
            else True) qs)"

section \<open>Notions used to state the properties\<close>

subsection \<open>Sibling sequences\<close>

text \<open>The ids of a sibling sequence, and the position of the first element with an id.\<close>

definition ids :: "('a item_scheme) list \<Rightarrow> string set" where
  "ids xs = item_id ` set xs"

definition position :: "('a item_scheme) list \<Rightarrow> string \<Rightarrow> nat" where
  "position xs i = length (takeWhile (\<lambda>x. item_id x \<noteq> i) xs)"

text \<open>
  The single-element move of the specification: take the element at index \<open>i\<close> out,
  then put it back so that it stands at index \<open>j\<close>.
\<close>

definition move_item :: "'a list \<Rightarrow> nat \<Rightarrow> nat \<Rightarrow> 'a list" where
  "move_item xs i j = (let ys = take i xs @ drop (Suc i) xs in take j ys @ [xs ! i] @ drop j ys)"

text \<open>An element with its \<^verbatim>\<open>order\<close> blanked: two elements that differ in \<^verbatim>\<open>order\<close> only agree.\<close>

definition forget_order :: "'a item_scheme \<Rightarrow> 'a item_scheme" where
  "forget_order x = x\<lparr>order := 0\<rparr>"

subsection \<open>Documents\<close>

text \<open>
  What \<^verbatim>\<open>rawData?.data?.sheet\<close> and \<^verbatim>\<open>rawData?.data?.questions\<close> read in a document;
  \<open>None\<close> when the document lacks the sheet record or the questions collection.  The
  records of a document: its questions when they are an array without a \<^verbatim>\<open>null\<close> entry.
\<close>

definition doc_sheet :: "raw_doc option \<Rightarrow> raw_sheet option" where
  "doc_sheet rawData =
     (case rawData of None \<Rightarrow> None
      | Some doc \<Rightarrow> (case data doc of None \<Rightarrow> None | Some d \<Rightarrow> raw_sheet d))"

definition doc_questions :: "raw_doc option \<Rightarrow> raw_collection option" where
  "doc_questions rawData =
     (case rawData of None \<Rightarrow> None
      | Some doc \<Rightarrow> (case data doc of None \<Rightarrow> None | Some d \<Rightarrow> raw_questions d))"

definition doc_records :: "raw_doc option \<Rightarrow> raw_question list option" where
  "doc_records rawData =
     (case doc_questions rawData of Some (ArrayOf es) \<Rightarrow> those es | _ \<Rightarrow> None)"

subsection \<open>The filter\<close>

text \<open>\<open>n\<close> is a substring of \<open>h\<close>.\<close>

definition is_substring :: "string \<Rightarrow> string \<Rightarrow> bool" where
  "is_substring n h \<longleftrightarrow> (\<exists>pre suf. h = pre @ n @ suf)"

text \<open>
  The three predicates of the filter as the specification words them, for a search
  string, a difficulty filter and a status filter.
\<close>

definition claimed_match :: "string \<Rightarrow> string \<Rightarrow> string \<Rightarrow> question \<Rightarrow> bool" where
  "claimed_match search fd fs q \<longleftrightarrow>
     is_substring (trim (toLowerCase search)) (toLowerCase (title q))
     \<and> (fd = FILTER_ALL \<or> difficulty q = JStr fd)
     \<and> (fs = FILTER_ALL \<or> fs = FILTER_SOLVED \<and> isSolved q \<or> fs = FILTER_UNSOLVED \<and> \<not> isSolved q)"

text \<open>
  The predicate the code applies: an empty difficulty filter restricts nothing, and a
  status filter restricts only when it is \<^verbatim>\<open>solved\<close> or \<^verbatim>\<open>unsolved\<close>.
\<close>

definition filter_match :: "string \<Rightarrow> string \<Rightarrow> string \<Rightarrow> question \<Rightarrow> bool" where
  "filter_match search fd fs q \<longleftrightarrow>
     is_substring (trim (toLowerCase search)) (toLowerCase (title q))
     \<and> (fd = [] \<or> fd = FILTER_ALL \<or> difficulty q = JStr fd)
     \<and> (fs = FILTER_SOLVED \<longrightarrow> isSolved q)
     \<and> (fs = FILTER_UNSOLVED \<longrightarrow> \<not> isSolved q)"

subsection \<open>Questions in the tree\<close>

text \<open>The question at a path of indices, and the paths of a tree.\<close>

definition question_at :: "topic list \<Rightarrow> nat \<Rightarrow> nat \<Rightarrow> nat \<Rightarrow> question" where
  "question_at ts i j k = questions (subtopics (ts ! i) ! j) ! k"

definition valid_path :: "topic list \<Rightarrow> nat \<Rightarrow> nat \<Rightarrow> nat \<Rightarrow> bool" where
  "valid_path ts i j k \<longleftrightarrow>
     i < length ts \<and> j < length (subtopics (ts ! i))
     \<and> k < length (questions (subtopics (ts ! i) ! j))"

text \<open>The path leads to a question with id \<open>q\<close> in a subtopic \<open>sb\<close> of a topic \<open>t\<close>.\<close>

definition addressed :: "topic list \<Rightarrow> string \<Rightarrow> string \<Rightarrow> string \<Rightarrow> nat \<Rightarrow> nat \<Rightarrow> nat \<Rightarrow> bool" where
  "addressed ts t sb q i j k \<longleftrightarrow>
     item_id (ts ! i) = t \<and> item_id (subtopics (ts ! i) ! j) = sb
     \<and> item_id (question_at ts i j k) = q"

text \<open>The tree without its questions: what an edit of a question must not change.\<close>

definition skeleton :: "topic list \<Rightarrow> topic list" where
  "skeleton ts =
     map (\<lambda>t. t\<lparr>subtopics := map (\<lambda>sb. sb\<lparr>questions := []\<rparr>) (subtopics t)\<rparr>) ts"

text \<open>
  The merge as the specification words it: every field present in the partial object
  (not \<^verbatim>\<open>undefined\<close>) is replaced by its validated value.
\<close>

definition claimed_merge :: "(string \<Rightarrow> bool) \<Rightarrow> question_data \<Rightarrow> question \<Rightarrow> question" where
  "claimed_merge parses qd q =
     (let q1 = (if data_title qd \<noteq> JUndefined
                then q\<lparr>title := sanitizeString (data_title qd) []\<rparr> else q);
          q2 = (if data_difficulty qd \<noteq> JUndefined
                then q1\<lparr>difficulty := JStr (validateDifficulty (data_difficulty qd))\<rparr> else q1);
          q3 = (if data_url qd \<noteq> JUndefined
                then q2\<lparr>url := validateUrl parses (data_url qd)\<rparr> else q2)
      in q3)"

subsection \<open>Grouping, as the specification words it\<close>

text \<open>The sanitized names under which a record is grouped.\<close>

definition topic_name :: "raw_question \<Rightarrow> string" where
  "topic_name q = sanitizeString (raw_topic q) ''General''"

definition subtopic_name :: "raw_question \<Rightarrow> string" where
  "subtopic_name q = sanitizeString (subTopic q) ''General''"

text \<open>The distinct elements of a list, in the order in which they are first seen.\<close>

primrec first_seen :: "'a list \<Rightarrow> 'a list" where
  "first_seen [] = []"
| "first_seen (x # xs) = x # filter (\<lambda>y. y \<noteq> x) (first_seen xs)"

text \<open>
  The ids of the records, in input order: the id of the record when it has one, else the
  next generated one; \<open>k\<close> identifiers have been drawn before.
\<close>

fun assign_ids :: "(nat \<Rightarrow> string) \<Rightarrow> nat \<Rightarrow> raw_question list \<Rightarrow> string list" where
  "assign_ids uuids k [] = []"
| "assign_ids uuids k (q # qs) =
     (let (i, k') = id_or_generate ''question'' uuids k (raw_id q)
      in i # assign_ids uuids k' qs)"

text \<open>A record that has no id of its own, so that one is generated for it.\<close>

definition needs_id :: "raw_question \<Rightarrow> bool" where
  "needs_id q = (case raw_id q of None \<Rightarrow> True | Some v \<Rightarrow> v = [])"

text \<open>The number of identifiers drawn once the records are read.\<close>

definition draws :: "nat \<Rightarrow> raw_question list \<Rightarrow> nat" where
  "draws k qs = k + length (filter needs_id qs)"

text \<open>
  The questions of one group: the records of the group in input order, each with its
  index in the group as \<^verbatim>\<open>order\<close>.
\<close>

definition group_questions ::
  "(string \<Rightarrow> bool) \<Rightarrow> (raw_question \<times> string) list \<Rightarrow> string \<Rightarrow> string \<Rightarrow> question list" where
  "group_questions parses rs tn sn =
     map (\<lambda>(k, (q, qid)). make_question parses q qid tn sn k) (enumerate 0 rs)"

text \<open>The \<open>j\<close>-th subtopic, named \<open>sn\<close>, of the topic with id \<open>tid\<close> and name \<open>tn\<close>.\<close>

definition group_subtopic ::
  "(string \<Rightarrow> bool) \<Rightarrow> (raw_question \<times> string) list \<Rightarrow> string \<Rightarrow> string \<Rightarrow> nat \<Rightarrow> string \<Rightarrow> subtopic" where
  "group_subtopic parses rs tid tn j sn =
     \<lparr> item_id = ''subtopic-'' @ tid @ ''-'' @ digits j, order = j, name = sn,
       questions =
         group_questions parses (filter (\<lambda>r. subtopic_name (fst r) = sn) rs) tn sn \<rparr>"

text \<open>
  The \<open>i\<close>-th topic, named \<open>tn\<close>: its subtopics are the subtopic names seen among its
  records, in first-seen order.
\<close>

definition group_topic ::
  "(string \<Rightarrow> bool) \<Rightarrow> (raw_question \<times> string) list \<Rightarrow> nat \<Rightarrow> string \<Rightarrow> topic" where
  "group_topic parses rs i tn =
     (let trs = filter (\<lambda>r. topic_name (fst r) = tn) rs;
          tid = ''topic-'' @ digits i
      in \<lparr> item_id = tid, order = i, name = tn,
           subtopics =
             map (\<lambda>(j, sn). group_subtopic parses trs tid tn j sn)
               (enumerate 0 (first_seen (map (\<lambda>r. subtopic_name (fst r)) trs))) \<rparr>)"

text \<open>The tree: the topic names seen, in first-seen order.\<close>

definition grouped_topics ::
  "(string \<Rightarrow> bool) \<Rightarrow> (raw_question \<times> string) list \<Rightarrow> topic list" where
  "grouped_topics parses rs =
     map (\<lambda>(i, tn). group_topic parses rs i tn)
       (enumerate 0 (first_seen (map (\<lambda>r. topic_name (fst r)) rs)))"

subsection \<open>Notions used in the proofs\<close>

text \<open>
  The invariant of the loops of \<open>calculateDetailedStats\<close>, on the pair of \<^verbatim>\<open>stats\<close> and
  \<^verbatim>\<open>topicStats\<close>: the buckets are the four labels, they add up to the overall counts,
  and so do the topics finished so far together with the topic being counted.
\<close>

definition stats_inv :: "stats \<times> topic_counts \<Rightarrow> bool" where
  "stats_inv acc =
     (let (st, tc) = acc in
      map fst (byDifficulty st) = DIFFICULTY_LEVELS
      \<and> sum_list (map (\<lambda>(d, c). total c) (byDifficulty st)) = total st
      \<and> sum_list (map (\<lambda>(d, c). solved c) (byDifficulty st)) = solved st
      \<and> sum_list (map total (byTopic st)) + total tc = total st
      \<and> sum_list (map solved (byTopic st)) + solved tc = solved st)"

text \<open>
  The ingest loop in two layers, for a record whose id is known: the push into the
  subtopic map of a topic, and the round on the topic map.
\<close>

definition push_sub ::
  "(string \<Rightarrow> bool) \<Rightarrow> (string \<times> subtopic) list \<Rightarrow> string \<Rightarrow> string \<Rightarrow> string \<Rightarrow>
   raw_question \<Rightarrow> string \<Rightarrow> (string \<times> subtopic) list" where
  "push_sub parses subs tid topicName subtopicName q qid =
     (let subtopic =
            (case map_of subs subtopicName of
               Some s \<Rightarrow> s
             | None \<Rightarrow> \<lparr> item_id = ''subtopic-'' @ tid @ ''-'' @ digits (length subs),
                         order = length subs,
                         name = subtopicName,
                         questions = [] \<rparr>);
          pushed = subtopic\<lparr>questions := questions subtopic @
                     [make_question parses q qid topicName subtopicName
                        (length (questions subtopic))]\<rparr>
      in AList.update subtopicName pushed subs)"

definition place ::
  "(string \<Rightarrow> bool) \<Rightarrow> (string \<times> topic_acc) list \<Rightarrow> raw_question \<times> string \<Rightarrow>
   (string \<times> topic_acc) list" where
  "place parses topicsMap r =
     (let (q, qid) = r;
          topicName = topic_name q;
          topic =
            (case map_of topicsMap topicName of
               Some t \<Rightarrow> t
             | None \<Rightarrow> \<lparr> item_id = ''topic-'' @ digits (length topicsMap),
                         order = length topicsMap,
                         name = topicName,
                         acc_subtopics = [] \<rparr>)
      in AList.update topicName
           (topic\<lparr>acc_subtopics :=
              push_sub parses (acc_subtopics topic) (item_id topic) topicName
                (subtopic_name q) q qid\<rparr>) topicsMap)"

text \<open>The maps of the ingest loop that hold the grouped subtopics and topics.\<close>

definition acc_subs ::
  "(string \<Rightarrow> bool) \<Rightarrow> (raw_question \<times> string) list \<Rightarrow> string \<Rightarrow> string \<Rightarrow>
   (string \<times> subtopic) list" where
  "acc_subs parses trs tid tn =
     map (\<lambda>(j, sn). (sn, group_subtopic parses trs tid tn j sn))
       (enumerate 0 (first_seen (map (\<lambda>r. subtopic_name (fst r)) trs)))"

definition acc_topic ::
  "(string \<Rightarrow> bool) \<Rightarrow> (raw_question \<times> string) list \<Rightarrow> nat \<Rightarrow> string \<Rightarrow> topic_acc" where
  "acc_topic parses rs i tn =
     \<lparr> item_id = ''topic-'' @ digits i, order = i, name = tn,
       acc_subtopics =
         acc_subs parses (filter (\<lambda>r. topic_name (fst r) = tn) rs) (''topic-'' @ digits i) tn \<rparr>"

definition grouped_acc ::
  "(string \<Rightarrow> bool) \<Rightarrow> (raw_question \<times> string) list \<Rightarrow> (string \<times> topic_acc) list" where
  "grouped_acc parses rs =
     map (\<lambda>(i, tn). (tn, acc_topic parses rs i tn))
       (enumerate 0 (first_seen (map (\<lambda>r. topic_name (fst r)) rs)))"

subsection \<open>Example data\<close>

text \<open>Topics, subtopics and questions with given ids and orders.\<close>

definition mk_topic :: "string \<Rightarrow> nat \<Rightarrow> subtopic list \<Rightarrow> topic" where
  "mk_topic i n sbs = \<lparr> item_id = i, order = n, name = ''T'' @ i, subtopics = sbs \<rparr>"

definition mk_subtopic :: "string \<Rightarrow> nat \<Rightarrow> question list \<Rightarrow> subtopic" where
  "mk_subtopic i n qs = \<lparr> item_id = i, order = n, name = ''S'' @ i, questions = qs \<rparr>"

definition mk_q :: "string \<Rightarrow> nat \<Rightarrow> string \<Rightarrow> string \<Rightarrow> bool \<Rightarrow> question" where
  "mk_q i n ttl d sv =
     \<lparr> item_id = i, order = n, title = ttl, topic = None, subtopic = None,
       difficulty = JStr d, url = [], resource = None, tags = None, isSolved = sv,
       q_notes = [] \<rparr>"

text \<open>A store whose second topic holds a subtopic with three questions.\<close>

definition ex_questions :: "question list" where
  "ex_questions =
     [mk_q ''q1'' 0 ''Two Sum'' ''Easy'' False,
      mk_q ''q2'' 1 ''Three Sum'' ''Medium'' True,
      mk_q ''q3'' 2 ''Word Ladder'' ''Hard'' False]"

definition ex_state :: state where
  "ex_state = initial_state
     \<lparr> topics :=
         [mk_topic ''A'' 0 [],
          mk_topic ''B'' 1 [mk_subtopic ''s1'' 0 ex_questions, mk_subtopic ''s2'' 1 []],
          mk_topic ''C'' 2 [],
          mk_topic ''D'' 3 []],
       loading := False \<rparr>"

text \<open>
  A tree of one topic whose last question is solved and has no difficulty field.
\<close>

definition stats_tree :: "topic list" where
  "stats_tree =
     [mk_topic ''B'' 0
        [mk_subtopic ''s1'' 0
           (ex_questions @ [(mk_q ''q4'' 3 ''Open Lock'' [] True)\<lparr>difficulty := JUndefined\<rparr>])]]"

text \<open>The example store with topic \<open>B\<close> and its subtopic \<open>s1\<close> expanded.\<close>

definition cascade_state :: state where
  "cascade_state = ex_state
     \<lparr> expandedTopics := [''B'' \<mapsto> True], expandedSubtopics := [''s1'' \<mapsto> True] \<rparr>"

text \<open>The fixture of the specification: one match and three near-misses.\<close>

definition filter_fixture :: "question option list" where
  "filter_fixture =
     [Some (mk_q ''f1'' 0 ''Three Sum'' ''Easy'' False),
      Some (mk_q ''f2'' 1 ''Two Sum'' ''Easy'' False),
      Some (mk_q ''f3'' 2 ''Two Sum II'' ''Medium'' False),
      Some (mk_q ''f4'' 3 ''Two Sum III'' ''Easy'' True)]"

text \<open>
  Two partial objects for \<open>updateQuestion\<close>: one whose title and difficulty are present
  and empty, one whose three fields all need validation.
\<close>

definition empty_fields :: question_data where
  "empty_fields = \<lparr> data_title = JStr [], data_difficulty = JStr [], data_url = JUndefined \<rparr>"

definition new_fields :: question_data where
  "new_fields = \<lparr> data_title = JStr '' 2Sum '', data_difficulty = JStr ''Extreme'',
                   data_url = JStr ''http  '' \<rparr>"

text \<open>
  A URL parser and a sequence of identifiers for the examples, and a document with three
  records, two of them in the same group once the names are sanitized, one without an id.
\<close>

definition ex_parses :: "string \<Rightarrow> bool" where
  "ex_parses s = startsWith s ''https://''"

definition ex_uuids :: "nat \<Rightarrow> string" where
  "ex_uuids n = ''uuid'' @ digits n"

definition raw_q :: "string option \<Rightarrow> string \<Rightarrow> string \<Rightarrow> string \<Rightarrow> jsval \<Rightarrow> raw_question" where
  "raw_q i ttl tp st d =
     \<lparr> raw_id = i, raw_title = JStr ttl, raw_topic = JStr tp, subTopic = JStr st,
       raw_resource = JUndefined, raw_isSolved = JBool False,
       raw_questionId = Some \<lparr> raw_difficulty = d, problemUrl = JStr ''https://x.test/p'',
                                raw_topics = JArr [JStr ''array''] \<rparr> \<rparr>"

definition ex_raw_sheet :: raw_sheet where
  "ex_raw_sheet =
     \<lparr> rs_id = Some ''sheet1'', rs_name = JStr '' Sheet '', rs_description = JUndefined,
       rs_author = JStr ''me'', rs_followers = JNum 7, rs_banner = JNull,
       rs_link = JStr ''ftp'', rs_tag = JArr [JStr ''dsa'', JNum 3] \<rparr>"

definition ex_records :: "raw_question list" where
  "ex_records =
     [raw_q (Some ''qa'') ''Two Sum'' ''Arrays'' ''Basics'' (JStr ''Easy''),
      raw_q None ''Flood Fill'' ''Graphs'' ''BFS'' (JStr ''Hard''),
      raw_q (Some ''qb'') ''Max Subarray'' '' Arrays'' ''Basics '' JUndefined]"

definition good_doc :: "raw_doc option" where
  "good_doc = Some \<lparr> data = Some \<lparr> raw_sheet = Some ex_raw_sheet,
      raw_questions = Some (ArrayOf (map Some ex_records)) \<rparr> \<rparr>"

text \<open>
  The same document without its questions collection, with a \<^verbatim>\<open>null\<close> entry after the
  first record, and with an object in the place of the array.
\<close>

definition no_questions_doc :: "raw_doc option" where
  "no_questions_doc = Some \<lparr> data = Some \<lparr> raw_sheet = Some ex_raw_sheet, raw_questions = None \<rparr> \<rparr>"

definition null_entry_doc :: "raw_doc option" where
  "null_entry_doc = Some \<lparr> data = Some \<lparr> raw_sheet = Some ex_raw_sheet,
      raw_questions = Some (ArrayOf [Some (hd ex_records), None]) \<rparr> \<rparr>"

definition not_array_doc :: "raw_doc option" where
  "not_array_doc = Some \<lparr> data = Some \<lparr> raw_sheet = Some ex_raw_sheet,
      raw_questions = Some NotAnArray \<rparr> \<rparr>"

subsection \<open>The states of the store\<close>

text \<open>No topic, subtopic or question of a tree has the empty string as its id.\<close>

definition nonempty_ids :: "topic list \<Rightarrow> bool" where
  "nonempty_ids ts \<longleftrightarrow>
     (\<forall>t \<in> set ts. item_id t \<noteq> []
        \<and> (\<forall>sb \<in> set (subtopics t). item_id sb \<noteq> []
             \<and> (\<forall>q \<in> set (questions sb). item_id q \<noteq> [])))"

text \<open>
  The states of the store: the initial one, and what an action makes of a state, with
  any arguments, any document fetched and any identifiers drawn.
\<close>

inductive reachable :: "state \<Rightarrow> bool" where
  initial: "reachable initial_state"
| fetchSheetData: "reachable s \<Longrightarrow> reachable (fetchSheetData parses uuids d s)"
| resetProgress: "reachable s \<Longrightarrow> reachable (resetProgress s)"
| toggleTopicExpansion: "reachable s \<Longrightarrow> reachable (toggleTopicExpansion t s)"
| toggleSubtopicExpansion: "reachable s \<Longrightarrow> reachable (toggleSubtopicExpansion sb s)"
| expandAllTopics: "reachable s \<Longrightarrow> reachable (expandAllTopics s)"
| collapseAllTopics: "reachable s \<Longrightarrow> reachable (collapseAllTopics s)"
| setSearchQuery: "reachable s \<Longrightarrow> reachable (setSearchQuery v s)"
| setFilterDifficulty: "reachable s \<Longrightarrow> reachable (setFilterDifficulty f s)"
| setFilterStatus: "reachable s \<Longrightarrow> reachable (setFilterStatus f s)"
| toggleTheme: "reachable s \<Longrightarrow> reachable (toggleTheme s)"
| toggleStats: "reachable s \<Longrightarrow> reachable (toggleStats s)"
| toggleQuestionSolved: "reachable s \<Longrightarrow> reachable (toggleQuestionSolved q s)"
| toggleAllInSubtopic: "reachable s \<Longrightarrow> reachable (toggleAllInSubtopic t sb v s)"
| updateQuestionNotes: "reachable s \<Longrightarrow> reachable (updateQuestionNotes q v s)"
| addTopic: "reachable s \<Longrightarrow> reachable (addTopic uuid nm s)"
| updateTopic: "reachable s \<Longrightarrow> reachable (updateTopic t nm s)"
| deleteTopic: "reachable s \<Longrightarrow> reachable (deleteTopic t s)"
| addSubtopic: "reachable s \<Longrightarrow> reachable (addSubtopic uuid t nm s)"
| updateSubtopic: "reachable s \<Longrightarrow> reachable (updateSubtopic t sb nm s)"
| deleteSubtopic: "reachable s \<Longrightarrow> reachable (deleteSubtopic t sb s)"
| addQuestion: "reachable s \<Longrightarrow> reachable (addQuestion parses uuid t sb qd s)"
| updateQuestion: "reachable s \<Longrightarrow> reachable (updateQuestion parses t sb q qd s)"
| deleteQuestion: "reachable s \<Longrightarrow> reachable (deleteQuestion t sb q s)"
| reorderTopics: "reachable s \<Longrightarrow> reachable (reorderTopics a b s)"
| reorderSubtopics: "reachable s \<Longrightarrow> reachable (reorderSubtopics t a b s)"
| reorderQuestions: "reachable s \<Longrightarrow> reachable (reorderQuestions t sb a b s)"


section \<open>Properties of the reorder engine\<close>

lemma findIndex_ge: "- 1 \<le> findIndex xs i"
  by (induction xs) (auto simp: Let_def)

lemma findIndex_absent: "findIndex xs i = - 1 \<longleftrightarrow> i \<notin> item_id ` set xs"
proof (induction xs)
  case Nil
  show ?case by simp
next
  case (Cons x xs)
  have "- 1 \<le> findIndex xs i" by (rule findIndex_ge)
  with Cons show ?case by (auto simp: Let_def)
qed

lemma findIndex_position:
  "i \<in> item_id ` set xs \<Longrightarrow> findIndex xs i = int (position xs i)"
proof (induction xs)
  case Nil
  then show ?case by simp
next
  case (Cons x xs)
  show ?case
  proof (cases "item_id x = i")
    case True
    then show ?thesis by (simp add: position_def)
  next
    case False
    with Cons.prems have mem: "i \<in> item_id ` set xs" by auto
    then have "findIndex xs i \<noteq> - 1" by (simp add: findIndex_absent)
    with False Cons.IH [OF mem] show ?thesis by (simp add: position_def Let_def)
  qed
qed

lemma position_less: "i \<in> item_id ` set xs \<Longrightarrow> position xs i < length xs"
  unfolding position_def
  by (induction xs) auto

lemma position_id: "i \<in> item_id ` set xs \<Longrightarrow> item_id (xs ! position xs i) = i"
  unfolding position_def
  by (induction xs) auto

lemma position_first: "k < position xs i \<Longrightarrow> item_id (xs ! k) \<noteq> i"
  unfolding position_def
  by (induction xs arbitrary: k) (auto simp: nth_Cons split: nat.splits if_splits)

lemma reorderArray_move:
  assumes "i < length xs" "j < length xs" "i \<noteq> j"
  shows "reorderArray xs (int i) (int j) = renumber (move_item xs i j)"
proof -
  have si: "splice_start xs (int i) = i"
    using assms by (simp add: splice_start_def)
  have "drop i xs = xs ! i # drop (Suc i) xs"
    using assms by (simp add: Cons_nth_drop_Suc)
  then have rm: "splice_remove1 xs (int i) = ([xs ! i], take i xs @ drop (Suc i) xs)"
    by (simp add: splice_remove1_def si Let_def)
  have len: "length (take i xs @ drop (Suc i) xs) = length xs - 1"
    using assms by simp
  have sj: "splice_start (take i xs @ drop (Suc i) xs) (int j) = j"
    using assms unfolding splice_start_def len by simp
  show ?thesis
    using assms by (simp add: reorderArray_def rm splice_insert_def sj move_item_def Let_def)
qed

lemma renumber_nth:
  "k < length xs \<Longrightarrow> renumber xs ! k = (xs ! k)\<lparr>order := k\<rparr>"
  by (simp add: renumber_def nth_enumerate_eq)

lemma length_renumber: "length (renumber xs) = length xs"
  by (simp add: renumber_def)

lemma map_order_renumber: "map order (renumber xs) = [0..<length xs]"
  by (rule nth_equalityI) (simp_all add: length_renumber renumber_nth)

lemma map_id_renumber: "map item_id (renumber xs) = map item_id xs"
  by (rule nth_equalityI) (simp_all add: length_renumber renumber_nth)

lemma renumber_forget: "map forget_order (renumber xs) = map forget_order xs"
  unfolding forget_order_def
  by (rule nth_equalityI) (simp_all add: length_renumber renumber_nth)

lemma length_move_item: "i < length xs \<Longrightarrow> length (move_item xs i j) = length xs"
  by (simp add: move_item_def Let_def)

lemma mset_insert_at: "mset (take j ys @ [x] @ drop j ys) = add_mset x (mset ys)"
proof -
  have "mset (take j ys @ [x] @ drop j ys) = add_mset x (mset (take j ys @ drop j ys))"
    by (simp del: append_take_drop_id)
  then show ?thesis by simp
qed

lemma mset_remove_at:
  "i < length xs \<Longrightarrow> add_mset (xs ! i) (mset (take i xs @ drop (Suc i) xs)) = mset xs"
proof -
  assume "i < length xs"
  then have "mset xs = mset (take i xs @ xs ! i # drop (Suc i) xs)"
    by (rule arg_cong [OF id_take_nth_drop])
  then show ?thesis by simp
qed

lemma mset_move_item: "i < length xs \<Longrightarrow> mset (move_item xs i j) = mset xs"
  unfolding move_item_def Let_def
  by (simp only: mset_insert_at mset_remove_at)

lemma reorderArray_same: "reorderArray xs i i = xs"
  by (simp add: reorderArray_def)

lemma reorderArray_present:
  assumes "a \<in> ids xs" "b \<in> ids xs" "a \<noteq> b"
  shows "reorderArray xs (findIndex xs a) (findIndex xs b)
         = renumber (move_item xs (position xs a) (position xs b))"
proof -
  have "position xs a \<noteq> position xs b"
    using assms position_id [of a xs] position_id [of b xs] by (auto simp: ids_def)
  then show ?thesis
    using assms
    by (simp add: ids_def findIndex_position reorderArray_move position_less)
qed

lemma reorderArray_perm:
  assumes "0 \<le> i" "i < int (length xs)" "0 \<le> j" "j < int (length xs)"
  shows "length (reorderArray xs i j) = length xs
       \<and> mset (map forget_order (reorderArray xs i j)) = mset (map forget_order xs)"
proof (cases "i = j")
  case True
  then show ?thesis by (simp add: reorderArray_same)
next
  case False
  from assms obtain m n where mn: "i = int m" "j = int n" "m < length xs" "n < length xs"
    by (metis nat_less_iff nonneg_int_cases of_nat_less_iff)
  with False have "m \<noteq> n" by simp
  with mn have eq: "reorderArray xs (int m) (int n) = renumber (move_item xs m n)"
    by (simp add: reorderArray_move)
  have "mset (map forget_order (move_item xs m n)) = mset (map forget_order xs)"
    using mn(3) by (simp add: mset_move_item)
  with mn(3) show ?thesis
    unfolding mn(1,2) eq renumber_forget by (simp add: length_renumber length_move_item)
qed

lemma reorderTopics_noop:
  "a = b \<or> a \<notin> ids (topics s) \<or> b \<notin> ids (topics s) \<Longrightarrow> reorderTopics a b s = s"
  by (auto simp: reorderTopics_def Let_def ids_def findIndex_absent)

lemma reorderSubtopics_same: "reorderSubtopics t a a s = s"
  by (simp add: reorderSubtopics_def)

lemma reorderQuestions_same: "reorderQuestions t sb a a s = s"
  by (simp add: reorderQuestions_def)

lemma length_reorderSubtopics: "length (topics (reorderSubtopics t a b s)) = length (topics s)"
  by (simp add: reorderSubtopics_def)

lemma length_reorderQuestions: "length (topics (reorderQuestions t sb a b s)) = length (topics s)"
  by (simp add: reorderQuestions_def)

lemma reorderSubtopics_absent:
  assumes "k < length (topics s)"
    and "a \<notin> ids (subtopics (topics s ! k)) \<or> b \<notin> ids (subtopics (topics s ! k))"
  shows "topics (reorderSubtopics t a b s) ! k = topics s ! k"
  using assms by (auto simp: reorderSubtopics_def Let_def ids_def findIndex_absent)

lemma reorderQuestions_sub_length:
  "k < length (topics s) \<Longrightarrow>
   length (subtopics (topics (reorderQuestions t sb a b s) ! k)) = length (subtopics (topics s ! k))"
  by (simp add: reorderQuestions_def)

lemma reorderQuestions_absent:
  assumes "k < length (topics s)" "l < length (subtopics (topics s ! k))"
    and "a \<notin> ids (questions (subtopics (topics s ! k) ! l))
       \<or> b \<notin> ids (questions (subtopics (topics s ! k) ! l))"
  shows "subtopics (topics (reorderQuestions t sb a b s) ! k) ! l = subtopics (topics s ! k) ! l"
  using assms by (auto simp: reorderQuestions_def Let_def ids_def findIndex_absent)

lemma reorderTopics_present:
  assumes "a \<noteq> []" "b \<noteq> []" "a \<noteq> b" "a \<in> ids (topics s)" "b \<in> ids (topics s)"
  shows "topics (reorderTopics a b s)
         = renumber (move_item (topics s) (position (topics s) a) (position (topics s) b))"
  using assms
  by (simp add: reorderTopics_def Let_def reorderArray_present)
     (simp add: ids_def findIndex_absent)

lemma reorderSubtopics_present:
  assumes "t \<noteq> []" "a \<noteq> []" "b \<noteq> []" "a \<noteq> b"
    and "k < length (topics s)" "item_id (topics s ! k) = t"
    and "a \<in> ids (subtopics (topics s ! k))" "b \<in> ids (subtopics (topics s ! k))"
  shows "subtopics (topics (reorderSubtopics t a b s) ! k)
         = renumber (move_item (subtopics (topics s ! k))
             (position (subtopics (topics s ! k)) a) (position (subtopics (topics s ! k)) b))"
  using assms
  by (simp add: reorderSubtopics_def Let_def reorderArray_present)
     (simp add: ids_def findIndex_absent)

lemma reorderQuestions_present:
  assumes "t \<noteq> []" "sb \<noteq> []" "a \<noteq> []" "b \<noteq> []" "a \<noteq> b"
    and "k < length (topics s)" "item_id (topics s ! k) = t"
    and "l < length (subtopics (topics s ! k))" "item_id (subtopics (topics s ! k) ! l) = sb"
    and "a \<in> ids (questions (subtopics (topics s ! k) ! l))"
    and "b \<in> ids (questions (subtopics (topics s ! k) ! l))"
  shows "questions (subtopics (topics (reorderQuestions t sb a b s) ! k) ! l)
         = renumber (move_item (questions (subtopics (topics s ! k) ! l))
             (position (questions (subtopics (topics s ! k) ! l)) a)
             (position (questions (subtopics (topics s ! k) ! l)) b))"
  using assms
  by (simp add: reorderQuestions_def Let_def reorderArray_present)
     (simp add: ids_def findIndex_absent)

lemma moved_orders:
  "a \<in> ids xs \<Longrightarrow>
   map order (renumber (move_item xs (position xs a) j)) = [0..<length xs]
   \<and> order ` set (renumber (move_item xs (position xs a) j)) = {0..<length xs}"
proof -
  assume "a \<in> ids xs"
  then have "position xs a < length xs" by (simp add: ids_def position_less)
  then have m: "map order (renumber (move_item xs (position xs a) j)) = [0..<length xs]"
    by (simp add: map_order_renumber length_move_item)
  have "order ` set (renumber (move_item xs (position xs a) j))
        = set (map order (renumber (move_item xs (position xs a) j)))"
    by simp
  with m show ?thesis by simp
qed

lemma position_map:
  "position xs a = length (takeWhile (\<lambda>i. i \<noteq> a) (map item_id xs))"
  by (simp add: position_def takeWhile_map comp_def)

lemma map_move_item: "i < length xs \<Longrightarrow> map f (move_item xs i j) = move_item (map f xs) i j"
  by (simp add: move_item_def Let_def take_map drop_map)

lemma move_example:
  assumes "map item_id (topics s) = [''A'', ''B'', ''C'', ''D'']"
  shows "map item_id (topics (reorderTopics ''A'' ''C'' s)) = [''B'', ''C'', ''A'', ''D'']
       \<and> map order (topics (reorderTopics ''A'' ''C'' s)) = [0, 1, 2, 3]"
proof -
  have len: "length (topics s) = 4"
    using arg_cong [OF assms, of length] by simp
  have mem: "''A'' \<in> ids (topics s)" "''C'' \<in> ids (topics s)"
    using arg_cong [OF assms, of set] by (simp_all add: ids_def)
  have pa: "position (topics s) ''A'' = 0" and pc: "position (topics s) ''C'' = 2"
    by (simp_all add: position_map assms)
  have eq: "topics (reorderTopics ''A'' ''C'' s) = renumber (move_item (topics s) 0 2)"
    using reorderTopics_present [of "''A''" "''C''" s] mem by (simp add: pa pc)
  have "map item_id (move_item (topics s) 0 2) = move_item [''A'', ''B'', ''C'', ''D''] 0 2"
    using len by (simp add: map_move_item assms)
  also have "\<dots> = [''B'', ''C'', ''A'', ''D'']"
    by (simp add: move_item_def)
  finally have i: "map item_id (topics (reorderTopics ''A'' ''C'' s)) = [''B'', ''C'', ''A'', ''D'']"
    by (simp add: eq map_id_renumber)
  have "map order (topics (reorderTopics ''A'' ''C'' s)) = [0..<4]"
    using len by (simp add: eq map_order_renumber length_move_item)
  also have "[0..<4] = [0, 1, 2, (3::nat)]"
    by (simp add: upt_rec)
  finally show ?thesis using i by simp
qed

lemma ex_positions:
  "position (topics ex_state) ''A'' = 0" "position (topics ex_state) ''C'' = 2"
  "position (subtopics (topics ex_state ! Suc 0)) ''s2'' = 1"
  "position (subtopics (topics ex_state ! Suc 0)) ''s1'' = 0"
  "position (questions (subtopics (topics ex_state ! Suc 0) ! 0)) ''q3'' = 2"
  "position (questions (subtopics (topics ex_state ! Suc 0) ! 0)) ''q1'' = 0"
  by code_simp+

text \<open>
  C1.  Let \<open>a\<close> and \<open>b\<close> be two distinct ids of a sibling sequence; an id is a string that
  is not empty, as is every id found in a state of the store (\<open>reachable_ids\<close>, in the
  last section).  If both occur in the topic list, \<open>reorderTopics a b\<close> takes the first
  topic with id \<open>a\<close> out, puts it back at the index of the first topic with id \<open>b\<close> (a
  move of one element, not a swap) and gives every topic its index as \<^verbatim>\<open>order\<close>, so the
  orders are exactly \<open>0, \<dots>, n - 1\<close>.  \<open>reorderSubtopics\<close> does the same to the subtopics
  of every topic with id \<open>t\<close>, and \<open>reorderQuestions\<close> to the questions of every subtopic
  with id \<open>sb\<close> under such a topic.  On ids \<open>[A, B, C, D]\<close>, moving \<open>A\<close> to the place of
  \<open>C\<close> gives \<open>[B, C, A, D]\<close> with orders \<open>[0, 1, 2, 3]\<close>.
\<close>

theorem reorder_moves_and_renumbers:
  assumes "a \<noteq> []" "b \<noteq> []" "a \<noteq> b"
  shows
   "(a \<in> ids (topics s) \<and> b \<in> ids (topics s) \<longrightarrow>
       (let xs = topics s; ys = topics (reorderTopics a b s) in
        ys = renumber (move_item xs (position xs a) (position xs b))
        \<and> map order ys = [0..<length xs] \<and> order ` set ys = {0..<length xs}))
    \<and> (\<forall>k<length (topics s).
         t \<noteq> [] \<and> item_id (topics s ! k) = t
         \<and> a \<in> ids (subtopics (topics s ! k)) \<and> b \<in> ids (subtopics (topics s ! k)) \<longrightarrow>
         (let xs = subtopics (topics s ! k);
              ys = subtopics (topics (reorderSubtopics t a b s) ! k) in
          ys = renumber (move_item xs (position xs a) (position xs b))
          \<and> map order ys = [0..<length xs] \<and> order ` set ys = {0..<length xs}))
    \<and> (\<forall>k<length (topics s). \<forall>l<length (subtopics (topics s ! k)).
         t \<noteq> [] \<and> sb \<noteq> [] \<and> item_id (topics s ! k) = t
         \<and> item_id (subtopics (topics s ! k) ! l) = sb
         \<and> a \<in> ids (questions (subtopics (topics s ! k) ! l))
         \<and> b \<in> ids (questions (subtopics (topics s ! k) ! l)) \<longrightarrow>
         (let xs = questions (subtopics (topics s ! k) ! l);
              ys = questions (subtopics (topics (reorderQuestions t sb a b s) ! k) ! l) in
          ys = renumber (move_item xs (position xs a) (position xs b))
          \<and> map order ys = [0..<length xs] \<and> order ` set ys = {0..<length xs}))
    \<and> (a = ''A'' \<and> b = ''C'' \<and> map item_id (topics s) = [''A'', ''B'', ''C'', ''D''] \<longrightarrow>
         map item_id (topics (reorderTopics a b s)) = [''B'', ''C'', ''A'', ''D'']
         \<and> map order (topics (reorderTopics a b s)) = [0, 1, 2, 3])"
proof (intro conjI allI impI)
  assume h: "a \<in> ids (topics s) \<and> b \<in> ids (topics s)"
  with assms show "let xs = topics s; ys = topics (reorderTopics a b s) in
        ys = renumber (move_item xs (position xs a) (position xs b))
        \<and> map order ys = [0..<length xs] \<and> order ` set ys = {0..<length xs}"
    unfolding Let_def
    using reorderTopics_present [of a b s] moved_orders [of a "topics s" "position (topics s) b"]
    by simp
next
  fix k
  assume k: "k < length (topics s)"
    and h: "t \<noteq> [] \<and> item_id (topics s ! k) = t
         \<and> a \<in> ids (subtopics (topics s ! k)) \<and> b \<in> ids (subtopics (topics s ! k))"
  with assms show "let xs = subtopics (topics s ! k);
              ys = subtopics (topics (reorderSubtopics t a b s) ! k) in
          ys = renumber (move_item xs (position xs a) (position xs b))
          \<and> map order ys = [0..<length xs] \<and> order ` set ys = {0..<length xs}"
    unfolding Let_def
    using reorderSubtopics_present [of t a b k s]
      moved_orders [of a "subtopics (topics s ! k)" "position (subtopics (topics s ! k)) b"]
    by simp
next
  fix k l
  assume k: "k < length (topics s)" and l: "l < length (subtopics (topics s ! k))"
    and h: "t \<noteq> [] \<and> sb \<noteq> [] \<and> item_id (topics s ! k) = t
         \<and> item_id (subtopics (topics s ! k) ! l) = sb
         \<and> a \<in> ids (questions (subtopics (topics s ! k) ! l))
         \<and> b \<in> ids (questions (subtopics (topics s ! k) ! l))"
  with assms show "let xs = questions (subtopics (topics s ! k) ! l);
              ys = questions (subtopics (topics (reorderQuestions t sb a b s) ! k) ! l) in
          ys = renumber (move_item xs (position xs a) (position xs b))
          \<and> map order ys = [0..<length xs] \<and> order ` set ys = {0..<length xs}"
    unfolding Let_def
    using reorderQuestions_present [of t sb a b k s l]
      moved_orders [of a "questions (subtopics (topics s ! k) ! l)"
        "position (questions (subtopics (topics s ! k) ! l)) b"]
    by simp
next
  assume "a = ''A'' \<and> b = ''C'' \<and> map item_id (topics s) = [''A'', ''B'', ''C'', ''D'']"
  then show "map item_id (topics (reorderTopics a b s)) = [''B'', ''C'', ''A'', ''D'']"
    and "map order (topics (reorderTopics a b s)) = [0, 1, 2, 3]"
    using move_example [of s] by simp_all
qed

theorem reorder_moves_and_renumbers_witness:
  "''A'' \<in> ids (topics ex_state) \<and> ''C'' \<in> ids (topics ex_state)
   \<and> topics (reorderTopics ''A'' ''C'' ex_state) = renumber (move_item (topics ex_state) 0 2)
   \<and> item_id (topics ex_state ! Suc 0) = ''B''
   \<and> ''s2'' \<in> ids (subtopics (topics ex_state ! Suc 0)) \<and> ''s1'' \<in> ids (subtopics (topics ex_state ! Suc 0))
   \<and> subtopics (topics (reorderSubtopics ''B'' ''s2'' ''s1'' ex_state) ! Suc 0)
       = renumber (move_item (subtopics (topics ex_state ! Suc 0)) (Suc 0) 0)
   \<and> item_id (subtopics (topics ex_state ! Suc 0) ! 0) = ''s1''
   \<and> ''q3'' \<in> ids (questions (subtopics (topics ex_state ! Suc 0) ! 0))
   \<and> ''q1'' \<in> ids (questions (subtopics (topics ex_state ! Suc 0) ! 0))
   \<and> questions (subtopics (topics (reorderQuestions ''B'' ''s1'' ''q3'' ''q1'' ex_state) ! Suc 0) ! 0)
       = renumber (move_item (questions (subtopics (topics ex_state ! Suc 0) ! 0)) 2 0)
   \<and> map item_id (topics ex_state) = [''A'', ''B'', ''C'', ''D'']
   \<and> map item_id (topics (reorderTopics ''A'' ''C'' ex_state)) = [''B'', ''C'', ''A'', ''D'']
   \<and> map order (topics (reorderTopics ''A'' ''C'' ex_state)) = [0, 1, 2, 3]"
proof -
  have h1: "''A'' \<in> ids (topics ex_state) \<and> ''C'' \<in> ids (topics ex_state)"
    by code_simp
  have k: "Suc 0 < length (topics ex_state)" "0 < length (subtopics (topics ex_state ! Suc 0))"
    by code_simp+
  have h2: "item_id (topics ex_state ! Suc 0) = ''B''
      \<and> ''s2'' \<in> ids (subtopics (topics ex_state ! Suc 0)) \<and> ''s1'' \<in> ids (subtopics (topics ex_state ! Suc 0))"
    by code_simp
  have h3: "item_id (subtopics (topics ex_state ! Suc 0) ! 0) = ''s1''
      \<and> ''q3'' \<in> ids (questions (subtopics (topics ex_state ! Suc 0) ! 0))
      \<and> ''q1'' \<in> ids (questions (subtopics (topics ex_state ! Suc 0) ! 0))"
    by code_simp
  have ne: "''A'' \<noteq> []" "''C'' \<noteq> []" "''A'' \<noteq> ''C''" "''s2'' \<noteq> []" "''s1'' \<noteq> []"
    "''s2'' \<noteq> ''s1''" "''q3'' \<noteq> []" "''q1'' \<noteq> []" "''q3'' \<noteq> ''q1''" "''B'' \<noteq> []"
    by simp_all
  note T1 = reorder_moves_and_renumbers
            [where a = "''A''" and b = "''C''" and s = ex_state and t = "''B''" and sb = "''s1''",
             OF ne(1,2,3), unfolded Let_def, THEN conjunct1, rule_format]
  note T2 = reorder_moves_and_renumbers
            [where a = "''s2''" and b = "''s1''" and s = ex_state and t = "''B''" and sb = "''s1''",
             OF ne(4,5,6), unfolded Let_def, THEN conjunct2, THEN conjunct1, rule_format, of "Suc 0"]
  note T3 = reorder_moves_and_renumbers
            [where a = "''q3''" and b = "''q1''" and s = ex_state and t = "''B''" and sb = "''s1''",
             OF ne(7,8,9), unfolded Let_def, THEN conjunct2, THEN conjunct2, THEN conjunct1, rule_format, of "Suc 0" 0]
  have t1: "topics (reorderTopics ''A'' ''C'' ex_state) = renumber (move_item (topics ex_state) 0 2)"
    using T1 [OF h1] by (simp only: ex_positions)
  have t2: "subtopics (topics (reorderSubtopics ''B'' ''s2'' ''s1'' ex_state) ! Suc 0)
       = renumber (move_item (subtopics (topics ex_state ! Suc 0)) (Suc 0) 0)"
    using T2 [OF k(1)] h2 ne(10) by (simp only: ex_positions) simp
  have t3: "questions (subtopics (topics (reorderQuestions ''B'' ''s1'' ''q3'' ''q1'' ex_state) ! Suc 0) ! 0)
       = renumber (move_item (questions (subtopics (topics ex_state ! Suc 0) ! 0)) 2 0)"
    using T3 [OF k(1) k(2)] h2 h3 ne(10) ne(5) by (simp only: ex_positions) simp
  have h4: "map item_id (topics ex_state) = [''A'', ''B'', ''C'', ''D'']"
    by code_simp
  have "''A'' = ''A'' \<and> ''C'' = ''C'' \<and> map item_id (topics ex_state) = [''A'', ''B'', ''C'', ''D'']"
    using h4 by simp
  note T4 = reorder_moves_and_renumbers
            [where a = "''A''" and b = "''C''" and s = ex_state and t = "''B''" and sb = "''s1''",
             OF ne(1,2,3), THEN conjunct2, THEN conjunct2, THEN conjunct2, rule_format, OF this]
  show ?thesis
    by (intro conjI)
       (rule h1 [THEN conjunct1] h1 [THEN conjunct2] t1 t2 t3 h4 T4 [THEN conjunct1]
          T4 [THEN conjunct2] h2 [THEN conjunct1] h2 [THEN conjunct2, THEN conjunct1]
          h2 [THEN conjunct2, THEN conjunct2] h3 [THEN conjunct1]
          h3 [THEN conjunct2, THEN conjunct1] h3 [THEN conjunct2, THEN conjunct2])+
qed

text \<open>
  C7.  A reorder action leaves the sibling sequence as it is (elements, their sequence
  and their \<^verbatim>\<open>order\<close> fields) when the two ids are equal or when one of them does not
  occur in the sequence; \<open>reorderArray\<close> with equal indices returns its argument.  With
  equal ids, and for \<open>reorderTopics\<close> also with an absent id, the whole state is unchanged.
\<close>

theorem reorder_noop:
  "reorderArray xs i i = xs
   \<and> (a = b \<or> a \<notin> ids (topics s) \<or> b \<notin> ids (topics s) \<longrightarrow> reorderTopics a b s = s)
   \<and> (a = b \<longrightarrow> reorderSubtopics t a b s = s \<and> reorderQuestions t sb a b s = s)
   \<and> length (topics (reorderSubtopics t a b s)) = length (topics s)
   \<and> (\<forall>k<length (topics s).
        a \<notin> ids (subtopics (topics s ! k)) \<or> b \<notin> ids (subtopics (topics s ! k)) \<longrightarrow>
        topics (reorderSubtopics t a b s) ! k = topics s ! k)
   \<and> length (topics (reorderQuestions t sb a b s)) = length (topics s)
   \<and> (\<forall>k<length (topics s).
        length (subtopics (topics (reorderQuestions t sb a b s) ! k))
          = length (subtopics (topics s ! k))
        \<and> (\<forall>l<length (subtopics (topics s ! k)).
             a \<notin> ids (questions (subtopics (topics s ! k) ! l))
             \<or> b \<notin> ids (questions (subtopics (topics s ! k) ! l)) \<longrightarrow>
             subtopics (topics (reorderQuestions t sb a b s) ! k) ! l
               = subtopics (topics s ! k) ! l))"
  using reorderTopics_noop [of a b s] reorderSubtopics_absent [of _ s a b t]
    reorderQuestions_absent [of _ s _ a b t sb]
  by (simp add: reorderArray_same reorderSubtopics_same reorderQuestions_same
      length_reorderSubtopics length_reorderQuestions reorderQuestions_sub_length)

theorem reorder_noop_witness:
  "''zz'' \<notin> ids (topics ex_state) \<and> reorderTopics ''A'' ''zz'' ex_state = ex_state
   \<and> reorderTopics ''A'' ''A'' ex_state = ex_state
   \<and> Suc 0 < length (topics ex_state) \<and> ''zz'' \<notin> ids (subtopics (topics ex_state ! Suc 0))
   \<and> topics (reorderSubtopics ''B'' ''s1'' ''zz'' ex_state) ! Suc 0 = topics ex_state ! Suc 0
   \<and> 0 < length (subtopics (topics ex_state ! Suc 0))
   \<and> ''zz'' \<notin> ids (questions (subtopics (topics ex_state ! Suc 0) ! 0))
   \<and> subtopics (topics (reorderQuestions ''B'' ''s1'' ''zz'' ''q1'' ex_state) ! Suc 0) ! 0
       = subtopics (topics ex_state ! Suc 0) ! 0"
proof -
  have h: "''zz'' \<notin> ids (topics ex_state)" "Suc 0 < length (topics ex_state)"
    "''zz'' \<notin> ids (subtopics (topics ex_state ! Suc 0))"
    "0 < length (subtopics (topics ex_state ! Suc 0))"
    "''zz'' \<notin> ids (questions (subtopics (topics ex_state ! Suc 0) ! 0))"
    by code_simp+
  note Ta = reorder_noop [where xs = "topics ex_state" and i = 0 and a = "''A''" and b = "''zz''"
        and s = ex_state and t = "''B''" and sb = "''s1''", THEN conjunct2, THEN conjunct1,
        rule_format]
  note Tb = reorder_noop [where xs = "topics ex_state" and i = 0 and a = "''A''" and b = "''A''"
        and s = ex_state and t = "''B''" and sb = "''s1''", THEN conjunct2, THEN conjunct1,
        rule_format]
  note Tc = reorder_noop [where xs = "topics ex_state" and i = 0 and a = "''s1''" and b = "''zz''"
        and s = ex_state and t = "''B''" and sb = "''s1''", THEN conjunct2, THEN conjunct2,
        THEN conjunct2, THEN conjunct2, THEN conjunct1, rule_format, of "Suc 0"]
  note Td = reorder_noop [where xs = "topics ex_state" and i = 0 and a = "''zz''" and b = "''q1''"
        and s = ex_state and t = "''B''" and sb = "''s1''", THEN conjunct2, THEN conjunct2,
        THEN conjunct2, THEN conjunct2, THEN conjunct2, THEN conjunct2, rule_format, of "Suc 0",
        THEN conjunct2, rule_format, of 0]
  have a: "reorderTopics ''A'' ''zz'' ex_state = ex_state"
    by (rule Ta) (simp add: h)
  have b: "reorderTopics ''A'' ''A'' ex_state = ex_state"
    by (rule Tb) simp
  have c: "topics (reorderSubtopics ''B'' ''s1'' ''zz'' ex_state) ! Suc 0 = topics ex_state ! Suc 0"
    by (rule Tc [OF h(2)]) (simp add: h)
  have d: "subtopics (topics (reorderQuestions ''B'' ''s1'' ''zz'' ''q1'' ex_state) ! Suc 0) ! 0
       = subtopics (topics ex_state ! Suc 0) ! 0"
    by (rule Td [OF h(2) h(4)]) (simp add: h)
  from h a b c d show ?thesis by simp
qed

text \<open>
  C10.  For indices \<open>i\<close> and \<open>j\<close> within the array, \<open>reorderArray xs i j\<close> has the
  length of \<open>xs\<close>, and its elements are those of \<open>xs\<close>, each as often as in \<open>xs\<close>, up
  to their \<^verbatim>\<open>order\<close> field.
\<close>

theorem reorderArray_permutation:
  assumes "0 \<le> i" "i < int (length xs)" "0 \<le> j" "j < int (length xs)"
  shows "length (reorderArray xs i j) = length xs
       \<and> mset (map forget_order (reorderArray xs i j)) = mset (map forget_order xs)"
  using assms by (rule reorderArray_perm)

theorem reorderArray_permutation_witness:
  "(0::int) \<le> 0 \<and> 0 < int (length ex_questions) \<and> (0::int) \<le> 2 \<and> 2 < int (length ex_questions)
   \<and> length (reorderArray ex_questions 0 2) = length ex_questions
   \<and> mset (map forget_order (reorderArray ex_questions 0 2)) = mset (map forget_order ex_questions)"
  using reorderArray_permutation [of 0 ex_questions 2] by (simp add: ex_questions_def)

section \<open>Frame and failure properties of the store\<close>

text \<open>
  C9.  None of the fifteen tree mutators changes the \<^verbatim>\<open>sheet\<close> field, nor does any of
  the actions on the UI state; \<open>resetProgress\<close> sets it to \<^verbatim>\<open>null\<close>, and \<open>fetchSheetData\<close>
  sets it to the sheet of the document when it runs and the transform succeeds.
\<close>

theorem sheet_frame:
  "sheet (addTopic uuid nm s) = sheet s
   \<and> sheet (updateTopic t nm s) = sheet s
   \<and> sheet (deleteTopic t s) = sheet s
   \<and> sheet (addSubtopic uuid t nm s) = sheet s
   \<and> sheet (updateSubtopic t sb nm s) = sheet s
   \<and> sheet (deleteSubtopic t sb s) = sheet s
   \<and> sheet (addQuestion parses uuid t sb qd s) = sheet s
   \<and> sheet (updateQuestion parses t sb q qd s) = sheet s
   \<and> sheet (deleteQuestion t sb q s) = sheet s
   \<and> sheet (toggleQuestionSolved q s) = sheet s
   \<and> sheet (toggleAllInSubtopic t sb v s) = sheet s
   \<and> sheet (updateQuestionNotes q v s) = sheet s
   \<and> sheet (reorderTopics a b s) = sheet s
   \<and> sheet (reorderSubtopics t a b s) = sheet s
   \<and> sheet (reorderQuestions t sb a b s) = sheet s
   \<and> sheet (toggleTopicExpansion t s) = sheet s
   \<and> sheet (toggleSubtopicExpansion sb s) = sheet s
   \<and> sheet (expandAllTopics s) = sheet s
   \<and> sheet (collapseAllTopics s) = sheet s
   \<and> sheet (setSearchQuery v s) = sheet s
   \<and> sheet (setFilterDifficulty a s) = sheet s
   \<and> sheet (setFilterStatus a s) = sheet s
   \<and> sheet (toggleTheme s) = sheet s
   \<and> sheet (toggleStats s) = sheet s
   \<and> sheet (resetProgress s) = None
   \<and> sheet (fetchSheetData parses uuids d s) =
       (if length (topics s) > 0 \<and> \<not> loading s then sheet s
        else case transformSheetData parses uuids d of
               Inr r \<Rightarrow> Some (fst r)
             | Inl e \<Rightarrow> sheet s)"
  by (simp add: addTopic_def updateTopic_def deleteTopic_def addSubtopic_def updateSubtopic_def
      deleteSubtopic_def addQuestion_def updateQuestion_def deleteQuestion_def
      toggleQuestionSolved_def toggleAllInSubtopic_def updateQuestionNotes_def
      reorderTopics_def reorderSubtopics_def reorderQuestions_def
      toggleTopicExpansion_def toggleSubtopicExpansion_def expandAllTopics_def
      collapseAllTopics_def setSearchQuery_def setFilterDifficulty_def setFilterStatus_def
      toggleTheme_def toggleStats_def resetProgress_def fetchSheetData_def Let_def
      split: option.split sum.split error.split prod.split)

text \<open>
  What the two delete actions do to the expansion maps: each removes the entry of the id
  it is given, and \<open>deleteTopic\<close> does not touch \<open>expandedSubtopics\<close> at all.
\<close>

lemma deleteTopic_expandedSubtopics:
  "expandedSubtopics (deleteTopic topicId s) = expandedSubtopics s"
  by (simp add: deleteTopic_def Let_def)

lemma deleteTopic_prunes_own: "topicId \<noteq> [] \<Longrightarrow> expandedTopics (deleteTopic topicId s) topicId = None"
  by (simp add: deleteTopic_def Let_def)

lemma deleteSubtopic_prunes_own:
  "topicId \<noteq> [] \<Longrightarrow> subtopicId \<noteq> [] \<Longrightarrow>
   expandedSubtopics (deleteSubtopic topicId subtopicId s) subtopicId = None"
  by (simp add: deleteSubtopic_def Let_def)

text \<open>
  C8.  The claim asks that after \<open>deleteTopic\<close> no entry of the expansion maps is keyed
  by the id of a subtopic deleted with its topic.  In \<open>cascade_state\<close> the topic \<open>B\<close>
  holds the subtopic \<open>s1\<close>, which is expanded; deleting \<open>B\<close> removes \<open>s1\<close> from the
  tree and the entry of \<open>B\<close> from \<open>expandedTopics\<close>, and the entry of \<open>s1\<close> stays in
  \<open>expandedSubtopics\<close>.
\<close>

theorem deleteTopic_leaves_subtopic_entry:
  "''s1'' \<in> ids (concat (map subtopics (topics cascade_state)))
   \<and> ''s1'' \<notin> ids (concat (map subtopics (topics (deleteTopic ''B'' cascade_state))))
   \<and> expandedTopics (deleteTopic ''B'' cascade_state) ''B'' = None
   \<and> expandedSubtopics (deleteTopic ''B'' cascade_state) ''s1'' = Some True"
  by (simp add: deleteTopic_def cascade_state_def ex_state_def ids_def mk_topic_def mk_subtopic_def)

lemma transform_fails:
  "doc_sheet d = None \<or> doc_questions d = None \<Longrightarrow>
   transformSheetData parses uuids d = Inl (Error ''Invalid sheet data format'')"
  by (auto simp: transformSheetData_def doc_sheet_def doc_questions_def split: option.splits)

lemma those_Some: "those es = Some qs \<Longrightarrow> es = map Some qs"
  by (induction es arbitrary: qs) (auto split: option.splits)

lemma ingest_all_records:
  "ingest_all parses uuids st (map Some qs) = Inr (foldl (ingest_step parses uuids) st qs)"
  by (induction qs arbitrary: st) simp_all

lemma ingest_all_null:
  "those es = None \<Longrightarrow> \<exists>m. ingest_all parses uuids st es = Inl (TypeError m)"
proof (induction es arbitrary: st)
  case Nil
  then show ?case by simp
next
  case (Cons e es)
  show ?case
  proof (cases e)
    case None
    then show ?thesis by simp
  next
    case (Some q)
    with Cons.prems have "those es = None" by (simp split: option.splits)
    then show ?thesis by (simp add: Some Cons.IH)
  qed
qed

lemma doc_records_Some:
  "doc_records d = Some qs \<Longrightarrow> doc_questions d = Some (ArrayOf (map Some qs))"
  by (auto simp: doc_records_def dest: those_Some split: option.splits raw_collection.splits)

lemma transform_succeeds:
  assumes "doc_sheet d \<noteq> None" "doc_records d \<noteq> None"
  shows "\<exists>r. transformSheetData parses uuids d = Inr r"
proof -
  from assms(2) obtain qs where "doc_records d = Some qs" by blast
  then have "doc_questions d = Some (ArrayOf (map Some qs))" by (rule doc_records_Some)
  with assms(1) show ?thesis
    by (auto simp: transformSheetData_def doc_sheet_def doc_questions_def ingest_all_records
        Let_def split: option.splits prod.splits)
qed

lemma transform_type_error:
  assumes "doc_sheet d \<noteq> None" "doc_questions d \<noteq> None" "doc_records d = None"
  shows "\<exists>m. transformSheetData parses uuids d = Inl (TypeError m)"
proof -
  from assms(1,2) obtain doc dd sh c where d: "d = Some doc" "data doc = Some dd"
    "raw_sheet dd = Some sh" "raw_questions dd = Some c"
    by (auto simp: doc_sheet_def doc_questions_def split: option.splits)
  show ?thesis
  proof (cases c)
    case NotAnArray
    then show ?thesis by (simp add: transformSheetData_def d)
  next
    case (ArrayOf es)
    with assms(3) d have "those es = None"
      by (simp add: doc_records_def doc_questions_def)
    then obtain m where "ingest_all parses uuids ([], 0) es = Inl (TypeError m)"
      using ingest_all_null by blast
    then show ?thesis by (simp add: transformSheetData_def d ArrayOf)
  qed
qed

lemma fetch_failure:
  assumes "transformSheetData parses uuids d = Inl e" "topics s = [] \<or> loading s"
  shows "error (fetchSheetData parses uuids d s) = Some (message e)"
    and "topics (fetchSheetData parses uuids d s) = topics s"
    and "sheet (fetchSheetData parses uuids d s) = sheet s"
    and "\<not> loading (fetchSheetData parses uuids d s)"
  using assms by (auto simp: fetchSheetData_def)

text \<open>
  C2 (as amended).  A document without a sheet record or without a questions collection
  makes \<open>transformSheetData\<close> fail with its format error, with no tree returned; a
  \<open>fetchSheetData\<close> that runs (the topic list is empty, or the store is loading) then
  records the message and leaves the topic list and the sheet as they were, so from the
  initial state the topic list stays empty and the sheet stays \<^verbatim>\<open>null\<close>.  A document with a
  sheet whose questions are an array without a \<^verbatim>\<open>null\<close> entry never makes the transform
  fail, and the fetch stores its result.  A document with a sheet whose questions are not
  an array, or hold a \<^verbatim>\<open>null\<close> entry, makes the transform fail with a \<^verbatim>\<open>TypeError\<close>; every
  failure of the transform is recorded by the fetch in the same way.
\<close>

theorem ingest_failure_is_fatal:
  "(doc_sheet d = None \<or> doc_questions d = None \<longrightarrow>
      transformSheetData parses uuids d = Inl (Error ''Invalid sheet data format'')
      \<and> (topics s = [] \<or> loading s \<longrightarrow>
          error (fetchSheetData parses uuids d s) = Some ''Invalid sheet data format''
          \<and> topics (fetchSheetData parses uuids d s) = topics s
          \<and> sheet (fetchSheetData parses uuids d s) = sheet s
          \<and> \<not> loading (fetchSheetData parses uuids d s))
      \<and> error (fetchSheetData parses uuids d initial_state) = Some ''Invalid sheet data format''
      \<and> topics (fetchSheetData parses uuids d initial_state) = []
      \<and> sheet (fetchSheetData parses uuids d initial_state) = None)
   \<and> (doc_sheet d \<noteq> None \<and> doc_records d \<noteq> None \<longrightarrow>
      (\<exists>r. transformSheetData parses uuids d = Inr r
           \<and> (topics s = [] \<or> loading s \<longrightarrow>
               error (fetchSheetData parses uuids d s) = None
               \<and> sheet (fetchSheetData parses uuids d s) = Some (fst r)
               \<and> topics (fetchSheetData parses uuids d s) = snd r)))
   \<and> (doc_sheet d \<noteq> None \<and> doc_questions d \<noteq> None \<and> doc_records d = None \<longrightarrow>
      (\<exists>m. transformSheetData parses uuids d = Inl (TypeError m)))
   \<and> (transformSheetData parses uuids d = Inl e \<and> (topics s = [] \<or> loading s) \<longrightarrow>
      error (fetchSheetData parses uuids d s) = Some (message e)
      \<and> topics (fetchSheetData parses uuids d s) = topics s
      \<and> sheet (fetchSheetData parses uuids d s) = sheet s
      \<and> \<not> loading (fetchSheetData parses uuids d s))"
proof (intro conjI impI)
  assume "doc_sheet d = None \<or> doc_questions d = None"
  then have f: "transformSheetData parses uuids d = Inl (Error ''Invalid sheet data format'')"
    by (rule transform_fails)
  show "transformSheetData parses uuids d = Inl (Error ''Invalid sheet data format'')"
    by (rule f)
  show "error (fetchSheetData parses uuids d initial_state) = Some ''Invalid sheet data format''"
    "topics (fetchSheetData parses uuids d initial_state) = []"
    "sheet (fetchSheetData parses uuids d initial_state) = None"
    by (simp_all add: fetchSheetData_def f initial_state_def)
  assume "topics s = [] \<or> loading s"
  then show "error (fetchSheetData parses uuids d s) = Some ''Invalid sheet data format''"
    "topics (fetchSheetData parses uuids d s) = topics s"
    "sheet (fetchSheetData parses uuids d s) = sheet s"
    "\<not> loading (fetchSheetData parses uuids d s)"
    by (auto simp: fetchSheetData_def f)
next
  assume "doc_sheet d \<noteq> None \<and> doc_records d \<noteq> None"
  then obtain r where r: "transformSheetData parses uuids d = Inr r"
    using transform_succeeds by blast
  show "\<exists>r. transformSheetData parses uuids d = Inr r
           \<and> (topics s = [] \<or> loading s \<longrightarrow>
               error (fetchSheetData parses uuids d s) = None
               \<and> sheet (fetchSheetData parses uuids d s) = Some (fst r)
               \<and> topics (fetchSheetData parses uuids d s) = snd r)"
    by (rule exI [of _ r]) (auto simp: fetchSheetData_def r split: prod.splits)
next
  assume "doc_sheet d \<noteq> None \<and> doc_questions d \<noteq> None \<and> doc_records d = None"
  then show "\<exists>m. transformSheetData parses uuids d = Inl (TypeError m)"
    using transform_type_error by blast
next
  assume h: "transformSheetData parses uuids d = Inl e \<and> (topics s = [] \<or> loading s)"
  then show "error (fetchSheetData parses uuids d s) = Some (message e)"
    "topics (fetchSheetData parses uuids d s) = topics s"
    "sheet (fetchSheetData parses uuids d s) = sheet s"
    "\<not> loading (fetchSheetData parses uuids d s)"
    using fetch_failure [of parses uuids d e s] by simp_all
qed

theorem ingest_failure_is_fatal_witness:
  "doc_questions no_questions_doc = None
   \<and> transformSheetData ex_parses ex_uuids no_questions_doc = Inl (Error ''Invalid sheet data format'')
   \<and> error (fetchSheetData ex_parses ex_uuids no_questions_doc initial_state)
       = Some ''Invalid sheet data format''
   \<and> topics (fetchSheetData ex_parses ex_uuids no_questions_doc initial_state) = []
   \<and> sheet (fetchSheetData ex_parses ex_uuids no_questions_doc initial_state) = None
   \<and> doc_sheet good_doc \<noteq> None \<and> doc_records good_doc \<noteq> None
   \<and> (\<exists>r. transformSheetData ex_parses ex_uuids good_doc = Inr r)
   \<and> doc_sheet not_array_doc \<noteq> None \<and> doc_questions not_array_doc \<noteq> None
   \<and> doc_records not_array_doc = None
   \<and> (\<exists>m. transformSheetData ex_parses ex_uuids not_array_doc = Inl (TypeError m))
   \<and> transformSheetData ex_parses ex_uuids null_entry_doc
       = Inl (TypeError ''Cannot read properties of null (reading 'topic')'')
   \<and> error (fetchSheetData ex_parses ex_uuids null_entry_doc initial_state)
       = Some (message (TypeError ''Cannot read properties of null (reading 'topic')''))"
proof -
  have h: "doc_questions no_questions_doc = None" by code_simp
  have g: "doc_sheet good_doc \<noteq> None \<and> doc_records good_doc \<noteq> None" by code_simp
  have n: "doc_sheet not_array_doc \<noteq> None \<and> doc_questions not_array_doc \<noteq> None
      \<and> doc_records not_array_doc = None" by code_simp
  have t: "transformSheetData ex_parses ex_uuids null_entry_doc
       = Inl (TypeError ''Cannot read properties of null (reading 'topic')'')" by code_simp
  have i: "topics initial_state = [] \<or> loading initial_state" by code_simp
  note F = ingest_failure_is_fatal [where d = no_questions_doc and parses = ex_parses
      and uuids = ex_uuids and s = initial_state, THEN conjunct1, rule_format, OF disjI2, OF h]
  note G = ingest_failure_is_fatal [where d = good_doc and parses = ex_parses
      and uuids = ex_uuids and s = initial_state, THEN conjunct2, THEN conjunct1, rule_format,
      OF g]
  note N = ingest_failure_is_fatal [where d = not_array_doc and parses = ex_parses
      and uuids = ex_uuids and s = initial_state, THEN conjunct2, THEN conjunct2,
      THEN conjunct1, rule_format, OF n]
  note E = ingest_failure_is_fatal [where d = null_entry_doc and parses = ex_parses
      and uuids = ex_uuids and s = initial_state, THEN conjunct2, THEN conjunct2,
      THEN conjunct2, rule_format, OF conjI, OF t i]
  from G have G': "\<exists>r. transformSheetData ex_parses ex_uuids good_doc = Inr r" by blast
  show ?thesis
    by (intro conjI)
       (rule h F [THEN conjunct1] F [THEN conjunct2, THEN conjunct2, THEN conjunct1]
          F [THEN conjunct2, THEN conjunct2, THEN conjunct2, THEN conjunct1]
          F [THEN conjunct2, THEN conjunct2, THEN conjunct2, THEN conjunct2]
          g [THEN conjunct1] g [THEN conjunct2] G' n [THEN conjunct1]
          n [THEN conjunct2, THEN conjunct1] n [THEN conjunct2, THEN conjunct2] N t
          E [THEN conjunct1])+
qed

text \<open>
  C2 as stated fails in its second half: \<open>null_entry_doc\<close> has a sheet record and a
  questions collection, an array whose second entry is \<^verbatim>\<open>null\<close>, and the transform throws
  at \<^verbatim>\<open>q.topic\<close> in the round of that entry; so it does for \<open>not_array_doc\<close>, whose
  questions are an object.  The fetch records the failure and populates nothing.
\<close>

theorem ingest_totality_counterexample:
  "doc_sheet null_entry_doc \<noteq> None \<and> doc_questions null_entry_doc \<noteq> None
   \<and> transformSheetData ex_parses ex_uuids null_entry_doc
       = Inl (TypeError ''Cannot read properties of null (reading 'topic')'')
   \<and> doc_sheet not_array_doc \<noteq> None \<and> doc_questions not_array_doc \<noteq> None
   \<and> transformSheetData ex_parses ex_uuids not_array_doc
       = Inl (TypeError ''questions.forEach is not a function'')
   \<and> error (fetchSheetData ex_parses ex_uuids null_entry_doc initial_state)
       = Some ''Cannot read properties of null (reading 'topic')''
   \<and> topics (fetchSheetData ex_parses ex_uuids null_entry_doc initial_state) = []
   \<and> sheet (fetchSheetData ex_parses ex_uuids null_entry_doc initial_state) = None"
  by code_simp

section \<open>Properties of the aggregator\<close>

lemma validateDifficulty_canonical: "validateDifficulty v \<in> set DIFFICULTY_LEVELS"
  by (cases v) (simp_all add: DIFFICULTY_LEVELS_def)

lemma update_sum:
  "map_of m d = Some c \<Longrightarrow>
   sum_list (map (\<lambda>(k, x). g x) (AList.update d c' m)) + g c
   = sum_list (map (\<lambda>(k, x). g x) m) + (g c' :: nat)"
  by (induction m) (auto split: if_splits)

lemma update_keys_present:
  "map_of m d = Some c \<Longrightarrow> map fst (AList.update d c' m) = map fst m"
  by (induction m) (auto split: if_splits)

lemma bump_bucket_keys: "map fst (bump_bucket f d m) = map fst m"
  by (simp add: bump_bucket_def update_keys_present split: option.split)

lemma bump_bucket_sum:
  "d \<in> set (map fst m) \<Longrightarrow>
   \<exists>c. map_of m d = Some c
     \<and> sum_list (map (\<lambda>(k, x). g x) (bump_bucket f d m)) + g c
       = sum_list (map (\<lambda>(k, x). g x) m) + (g (f c) :: nat)"
proof -
  assume "d \<in> set (map fst m)"
  then obtain c where c: "map_of m d = Some c"
    by (metis map_of_eq_None_iff not_None_eq set_map)
  then show ?thesis
    by (simp add: bump_bucket_def update_sum)
qed

lemma count_question_inv:
  assumes "stats_inv acc"
  shows "stats_inv (count_question acc q)"
proof -
  obtain st tc where acc: "acc = (st, tc)" by (cases acc)
  let ?d = "validateDifficulty (difficulty q)"
  let ?m1 = "bump_bucket (\<lambda>c. c\<lparr>total := total c + 1\<rparr>) ?d (byDifficulty st)"
  let ?m2 = "bump_bucket (\<lambda>c. c\<lparr>solved := solved c + 1\<rparr>) ?d ?m1"
  from assms have keys: "map fst (byDifficulty st) = DIFFICULTY_LEVELS"
    and bt: "sum_list (map (\<lambda>(d, c). total c) (byDifficulty st)) = total st"
    and bs: "sum_list (map (\<lambda>(d, c). solved c) (byDifficulty st)) = solved st"
    and tt: "sum_list (map total (byTopic st)) + total tc = total st"
    and ts: "sum_list (map solved (byTopic st)) + solved tc = solved st"
    by (simp_all add: stats_inv_def acc)
  have in1: "?d \<in> set (map fst (byDifficulty st))"
    by (simp only: keys validateDifficulty_canonical)
  then have in2: "?d \<in> set (map fst ?m1)"
    by (simp only: bump_bucket_keys)
  have k1: "map fst ?m1 = DIFFICULTY_LEVELS" and k2: "map fst ?m2 = DIFFICULTY_LEVELS"
    by (simp_all only: bump_bucket_keys keys)
  have t1: "sum_list (map (\<lambda>(d, c). total c) ?m1) = total st + 1"
    using bump_bucket_sum [OF in1, of total "\<lambda>c. c\<lparr>total := total c + 1\<rparr>"] bt by auto
  have s1: "sum_list (map (\<lambda>(d, c). solved c) ?m1) = solved st"
    using bump_bucket_sum [OF in1, of solved "\<lambda>c. c\<lparr>total := total c + 1\<rparr>"] bs by auto
  have t2: "sum_list (map (\<lambda>(d, c). total c) ?m2) = total st + 1"
    using bump_bucket_sum [OF in2, of total "\<lambda>c. c\<lparr>solved := solved c + 1\<rparr>"] t1 by auto
  have s2: "sum_list (map (\<lambda>(d, c). solved c) ?m2) = solved st + 1"
    using bump_bucket_sum [OF in2, of solved "\<lambda>c. c\<lparr>solved := solved c + 1\<rparr>"] s1 by auto
  show ?thesis
    using k1 k2 t1 s1 t2 s2 tt ts
    by (simp add: stats_inv_def acc count_question_def Let_def)
qed

lemma count_questions_inv: "stats_inv acc \<Longrightarrow> stats_inv (foldl count_question acc qs)"
  by (induction qs arbitrary: acc) (simp_all add: count_question_inv)

lemma count_subtopics_inv: "stats_inv acc \<Longrightarrow> stats_inv (foldl count_subtopic acc sbs)"
  by (induction sbs arbitrary: acc) (simp_all add: count_subtopic_def count_questions_inv)

lemma count_topic_inv:
  assumes "stats_inv (st, \<lparr>total = 0, solved = 0, tc_name = n\<rparr>)"
  shows "stats_inv (count_topic st t, \<lparr>total = 0, solved = 0, tc_name = n'\<rparr>)"
proof -
  let ?z = "\<lparr>total = 0, solved = 0, tc_name = name t\<rparr>"
  obtain st' tc' where r: "foldl count_subtopic (st, ?z) (subtopics t) = (st', tc')"
    by (cases "foldl count_subtopic (st, ?z) (subtopics t)")
  from assms have "stats_inv (st, ?z)" by (simp add: stats_inv_def)
  then have "stats_inv (st', tc')"
    using count_subtopics_inv [of "(st, ?z)" "subtopics t"] by (simp add: r)
  then show ?thesis
    by (simp add: count_topic_def r stats_inv_def)
qed

lemma count_topics_inv:
  "stats_inv (st, \<lparr>total = 0, solved = 0, tc_name = n\<rparr>) \<Longrightarrow>
   stats_inv (foldl count_topic st ts, \<lparr>total = 0, solved = 0, tc_name = n\<rparr>)"
  by (induction ts arbitrary: st) (simp_all add: count_topic_inv)

text \<open>
  C5.  For every list of topics, whatever the difficulty fields of the questions hold,
  the four buckets of \<^verbatim>\<open>byDifficulty\<close> add up to \<^verbatim>\<open>total\<close> and to \<^verbatim>\<open>solved\<close>, and so do the
  entries of \<^verbatim>\<open>byTopic\<close>.
\<close>

theorem stats_totals:
  "map fst (byDifficulty (calculateDetailedStats ts)) = [EASY, MEDIUM, HARD, BASIC]
   \<and> sum_list (map (\<lambda>(d, c). total c) (byDifficulty (calculateDetailedStats ts)))
       = total (calculateDetailedStats ts)
   \<and> sum_list (map total (byTopic (calculateDetailedStats ts)))
       = total (calculateDetailedStats ts)
   \<and> sum_list (map (\<lambda>(d, c). solved c) (byDifficulty (calculateDetailedStats ts)))
       = solved (calculateDetailedStats ts)
   \<and> sum_list (map solved (byTopic (calculateDetailedStats ts)))
       = solved (calculateDetailedStats ts)"
proof -
  let ?init = "\<lparr> total = 0, solved = 0,
         byDifficulty =
           [(EASY, \<lparr>total = 0, solved = 0\<rparr>), (MEDIUM, \<lparr>total = 0, solved = 0\<rparr>),
            (HARD, \<lparr>total = 0, solved = 0\<rparr>), (BASIC, \<lparr>total = 0, solved = 0\<rparr>)],
         byTopic = [] \<rparr>"
  have "stats_inv (?init, \<lparr>total = 0, solved = 0, tc_name = []\<rparr>)"
    by (simp add: stats_inv_def DIFFICULTY_LEVELS_def)
  then have "stats_inv (calculateDetailedStats ts, \<lparr>total = 0, solved = 0, tc_name = []\<rparr>)"
    unfolding calculateDetailedStats_def by (rule count_topics_inv)
  then show ?thesis
    by (simp add: stats_inv_def DIFFICULTY_LEVELS_def)
qed

text \<open>
  On \<open>stats_tree\<close> the question without a difficulty is counted under \<^verbatim>\<open>Medium\<close>.
\<close>

lemma stats_example:
  "calculateDetailedStats stats_tree
   = \<lparr> total = 4, solved = 2,
       byDifficulty =
         [(''Easy'', \<lparr>total = 1, solved = 0\<rparr>), (''Medium'', \<lparr>total = 2, solved = 2\<rparr>),
          (''Hard'', \<lparr>total = 1, solved = 0\<rparr>), (''Basic'', \<lparr>total = 0, solved = 0\<rparr>)],
       byTopic = [\<lparr>total = 4, solved = 2, tc_name = ''TB''\<rparr>] \<rparr>"
  by code_simp

section \<open>Properties of the filter\<close>

lemma includes_str_substring: "includes_str h n \<longleftrightarrow> is_substring n h"
proof (induction h)
  case Nil
  show ?case by (auto simp: is_substring_def)
next
  case (Cons c h)
  show ?case
  proof
    assume "includes_str (c # h) n"
    then consider "take (length n) (c # h) = n" | "includes_str h n" by auto
    then show "is_substring n (c # h)"
    proof cases
      case 1
      then have "c # h = [] @ n @ drop (length n) (c # h)"
        by (metis append_Nil append_take_drop_id)
      then show ?thesis unfolding is_substring_def by blast
    next
      case 2
      with Cons obtain pre suf where "h = pre @ n @ suf"
        by (auto simp: is_substring_def)
      then have "c # h = (c # pre) @ n @ suf" by simp
      then show ?thesis unfolding is_substring_def by blast
    qed
  next
    assume "is_substring n (c # h)"
    then obtain pre suf where e: "c # h = pre @ n @ suf"
      by (auto simp: is_substring_def)
    show "includes_str (c # h) n"
    proof (cases pre)
      case Nil
      with e have "take (length n) (c # h) = n" by simp
      then show ?thesis by simp
    next
      case (Cons p pre')
      with e have "h = pre' @ n @ suf" by simp
      then have "is_substring n h" unfolding is_substring_def by blast
      with Cons.IH show ?thesis by simp
    qed
  qed
qed

lemma is_substring_Nil: "is_substring [] h"
  unfolding is_substring_def by (rule exI [of _ "[]"], rule exI [of _ h]) simp

lemma trim_lower_Nil: "trim (toLowerCase []) = []"
  by (simp add: trim_def toLowerCase_def)

lemma filterQuestions_filter_match:
  "filterQuestions qs search fd fs
   = filter (\<lambda>e. case e of None \<Rightarrow> False | Some q \<Rightarrow> filter_match search fd fs q) qs"
  unfolding filterQuestions_def Let_def
  by (rule filter_cong [OF refl])
     (auto simp: filter_match_def includes_str_substring is_substring_Nil split: option.splits)

lemma filter_match_claimed:
  "fd \<noteq> [] \<Longrightarrow> fs \<in> {FILTER_ALL, FILTER_SOLVED, FILTER_UNSOLVED} \<Longrightarrow>
   filter_match search fd fs q = claimed_match search fd fs q"
  by (auto simp: filter_match_def claimed_match_def FILTER_ALL_def FILTER_SOLVED_def
      FILTER_UNSOLVED_def)

text \<open>
  C6.  For a difficulty filter that is \<^verbatim>\<open>all\<close> or a difficulty, and a status filter among
  \<^verbatim>\<open>all\<close>, \<^verbatim>\<open>solved\<close> and \<^verbatim>\<open>unsolved\<close>, \<open>filterQuestions\<close> returns, in their sequence
  and as they are, exactly the entries of the list that are questions and satisfy all
  of: the trimmed, lower-cased search string is a substring of the lower-cased title;
  the difficulty filter is \<^verbatim>\<open>all\<close> or equal to the difficulty of the question; the status
  filter is \<^verbatim>\<open>all\<close>, or \<^verbatim>\<open>solved\<close> and the question is solved, or \<^verbatim>\<open>unsolved\<close> and it is
  not.  An empty or white-space search holds of every title.  For all filters
  whatsoever the result is the sublist singled out by \<open>filter_match\<close>, the test as the
  code computes it; the filters that the store holds are never empty
  (\<open>reachable_invariant\<close>, in the last section).
\<close>

theorem filterQuestions_characterisation:
  "filterQuestions qs search fd fs
     = filter (\<lambda>e. case e of None \<Rightarrow> False | Some q \<Rightarrow> filter_match search fd fs q) qs
   \<and> (fd \<noteq> [] \<and> fs \<in> {FILTER_ALL, FILTER_SOLVED, FILTER_UNSOLVED} \<longrightarrow>
        filterQuestions qs search fd fs
          = filter (\<lambda>e. case e of None \<Rightarrow> False | Some q \<Rightarrow> claimed_match search fd fs q) qs)
   \<and> (trim (toLowerCase search) = [] \<longrightarrow>
        (\<forall>q. filter_match search fd fs q = filter_match [] fd fs q))"
proof (intro conjI impI)
  show m: "filterQuestions qs search fd fs
     = filter (\<lambda>e. case e of None \<Rightarrow> False | Some q \<Rightarrow> filter_match search fd fs q) qs"
    by (rule filterQuestions_filter_match)
  show "filterQuestions qs search fd fs
          = filter (\<lambda>e. case e of None \<Rightarrow> False | Some q \<Rightarrow> claimed_match search fd fs q) qs"
    if "fd \<noteq> [] \<and> fs \<in> {FILTER_ALL, FILTER_SOLVED, FILTER_UNSOLVED}"
    using that by (simp add: m filter_match_claimed cong: option.case_cong)
  show "\<forall>q. filter_match search fd fs q = filter_match [] fd fs q"
    if "trim (toLowerCase search) = []"
    using that by (simp add: filter_match_def is_substring_Nil trim_lower_Nil)
qed

theorem filterQuestions_characterisation_witness:
  "''Easy'' \<noteq> [] \<and> FILTER_UNSOLVED \<in> {FILTER_ALL, FILTER_SOLVED, FILTER_UNSOLVED}
   \<and> filterQuestions filter_fixture ''two sum'' ''Easy'' FILTER_UNSOLVED
       = filter (\<lambda>e. case e of None \<Rightarrow> False
                   | Some q \<Rightarrow> claimed_match ''two sum'' ''Easy'' FILTER_UNSOLVED q) filter_fixture
   \<and> filterQuestions filter_fixture ''two sum'' ''Easy'' FILTER_UNSOLVED
       = [Some (mk_q ''f2'' 1 ''Two Sum'' ''Easy'' False)]"
proof -
  have h: "''Easy'' \<noteq> [] \<and> FILTER_UNSOLVED \<in> {FILTER_ALL, FILTER_SOLVED, FILTER_UNSOLVED}"
    by simp
  note T = filterQuestions_characterisation [where qs = filter_fixture and search = "''two sum''"
      and fd = "''Easy''" and fs = FILTER_UNSOLVED, THEN conjunct2, THEN conjunct1, rule_format, OF h]
  have v: "filterQuestions filter_fixture ''two sum'' ''Easy'' FILTER_UNSOLVED
       = [Some (mk_q ''f2'' 1 ''Two Sum'' ''Easy'' False)]"
    by code_simp
  show ?thesis
    by (intro conjI) (rule h [THEN conjunct1] h [THEN conjunct2] T v)+
qed

section \<open>Properties of updateQuestion\<close>

lemma updateQuestion_guard:
  "t = [] \<or> sb = [] \<or> q = [] \<Longrightarrow> updateQuestion parses t sb q qd s = s"
  by (auto simp: updateQuestion_def split: option.split)

lemma updateQuestion_None: "updateQuestion parses t sb q None s = s"
  by (simp add: updateQuestion_def)

lemma updateQuestion_lengths:
  "length (topics (updateQuestion parses t sb q qd s)) = length (topics s)"
  "i < length (topics s) \<Longrightarrow>
   length (subtopics (topics (updateQuestion parses t sb q qd s) ! i))
   = length (subtopics (topics s ! i))"
  "i < length (topics s) \<Longrightarrow> j < length (subtopics (topics s ! i)) \<Longrightarrow>
   length (questions (subtopics (topics (updateQuestion parses t sb q qd s) ! i) ! j))
   = length (questions (subtopics (topics s ! i) ! j))"
  by (auto simp: updateQuestion_def split: option.split)

lemma updateQuestion_at:
  assumes "valid_path (topics s) i j k" "t \<noteq> []" "sb \<noteq> []" "q \<noteq> []"
  shows "question_at (topics (updateQuestion parses t sb q (Some qd) s)) i j k
         = (if addressed (topics s) t sb q i j k
            then merge_question parses qd (question_at (topics s) i j k)
            else question_at (topics s) i j k)"
  using assms
  by (auto simp: updateQuestion_def valid_path_def addressed_def question_at_def)

lemma updateQuestion_skeleton:
  "skeleton (topics (updateQuestion parses t sb q qd s)) = skeleton (topics s)"
  by (auto simp: updateQuestion_def skeleton_def split: option.split)

lemma updateQuestion_not_found:
  assumes "\<forall>i j k. valid_path (topics s) i j k \<longrightarrow> \<not> addressed (topics s) t sb q i j k"
  shows "updateQuestion parses t sb q qd s = s"
proof (cases "qd = None \<or> t = [] \<or> sb = [] \<or> q = []")
  case True
  then show ?thesis by (auto simp: updateQuestion_None updateQuestion_guard)
next
  case False
  then obtain d where d: "qd = Some d" and ne: "t \<noteq> []" "sb \<noteq> []" "q \<noteq> []" by auto
  have "topics (updateQuestion parses t sb q (Some d) s) = topics s"
  proof (rule nth_equalityI)
    show "length (topics (updateQuestion parses t sb q (Some d) s)) = length (topics s)"
      by (rule updateQuestion_lengths)
  next
    fix i assume "i < length (topics (updateQuestion parses t sb q (Some d) s))"
    then have i: "i < length (topics s)" by (simp add: updateQuestion_lengths)
    have "subtopics (topics (updateQuestion parses t sb q (Some d) s) ! i) = subtopics (topics s ! i)"
    proof (rule nth_equalityI)
      show "length (subtopics (topics (updateQuestion parses t sb q (Some d) s) ! i))
            = length (subtopics (topics s ! i))"
        using i by (rule updateQuestion_lengths)
    next
      fix j assume "j < length (subtopics (topics (updateQuestion parses t sb q (Some d) s) ! i))"
      with i have j: "j < length (subtopics (topics s ! i))" by (simp add: updateQuestion_lengths)
      have "questions (subtopics (topics (updateQuestion parses t sb q (Some d) s) ! i) ! j)
            = questions (subtopics (topics s ! i) ! j)"
      proof (rule nth_equalityI)
        show "length (questions (subtopics (topics (updateQuestion parses t sb q (Some d) s) ! i) ! j))
              = length (questions (subtopics (topics s ! i) ! j))"
          using i j by (rule updateQuestion_lengths)
      next
        fix k
        assume "k < length (questions (subtopics (topics (updateQuestion parses t sb q (Some d) s) ! i) ! j))"
        with i j have "valid_path (topics s) i j k"
          by (simp add: valid_path_def updateQuestion_lengths)
        with assms ne show "questions (subtopics (topics (updateQuestion parses t sb q (Some d) s) ! i) ! j) ! k
            = questions (subtopics (topics s ! i) ! j) ! k"
          using updateQuestion_at [of s i j k t sb q parses d] by (simp add: question_at_def)
      qed
      with i j show "subtopics (topics (updateQuestion parses t sb q (Some d) s) ! i) ! j
            = subtopics (topics s ! i) ! j"
        by (auto simp: updateQuestion_def)
    qed
    with i show "topics (updateQuestion parses t sb q (Some d) s) ! i = topics s ! i"
      by (auto simp: updateQuestion_def)
  qed
  then show ?thesis by (simp add: d updateQuestion_def ne)
qed

lemma merge_question_fields:
  "title (merge_question parses qd q)
     = (if truthy (data_title qd) then sanitizeString (data_title qd) [] else title q)"
  "difficulty (merge_question parses qd q)
     = (if truthy (data_difficulty qd) then JStr (validateDifficulty (data_difficulty qd))
        else difficulty q)"
  "url (merge_question parses qd q)
     = (if data_url qd \<noteq> JUndefined then validateUrl parses (data_url qd) else url q)"
  "(merge_question parses qd q)\<lparr>title := title q, difficulty := difficulty q, url := url q\<rparr> = q"
  by (simp_all add: merge_question_def Let_def)

lemma merge_question_claimed:
  "data_title qd = JUndefined \<or> truthy (data_title qd) \<Longrightarrow>
   data_difficulty qd = JUndefined \<or> truthy (data_difficulty qd) \<Longrightarrow>
   merge_question parses qd q = claimed_merge parses qd q"
  by (auto simp: merge_question_def claimed_merge_def Let_def)

lemma addressed_in_tree:
  "valid_path ts i j k \<Longrightarrow> addressed ts t sb q i j k \<Longrightarrow>
   q \<in> ids (concat (map questions (concat (map subtopics ts))))"
proof -
  assume v: "valid_path ts i j k" and a: "addressed ts t sb q i j k"
  from v have "ts ! i \<in> set ts" "subtopics (ts ! i) ! j \<in> set (subtopics (ts ! i))"
    "question_at ts i j k \<in> set (questions (subtopics (ts ! i) ! j))"
    by (simp_all add: valid_path_def question_at_def)
  then have "question_at ts i j k \<in> set (concat (map questions (concat (map subtopics ts))))"
    by auto
  with a show ?thesis
    unfolding ids_def addressed_def by (metis imageI)
qed

text \<open>
  C4 (as amended).  Let the ids be non-empty and the partial object \<open>qd\<close> be given.  In
  every question with id \<open>q\<close> in a subtopic \<open>sb\<close> of a topic \<open>t\<close>, \<open>updateQuestion\<close>
  replaces the title by the sanitized title of \<open>qd\<close> when that is truthy, the difficulty
  by the validated difficulty of \<open>qd\<close> when that is truthy, and the url by the validated
  url of \<open>qd\<close> when that is not \<^verbatim>\<open>undefined\<close>; it leaves every other field of the question,
  every other question and the rest of the state as they are.  When each of title and
  difficulty is absent or truthy in \<open>qd\<close>, the fields replaced are exactly the fields
  present.  If no question is found under \<open>t\<close> and \<open>sb\<close>, if an id is empty or if the
  partial object is missing, the state is unchanged.
\<close>

theorem updateQuestion_merges:
  "(t \<noteq> [] \<and> sb \<noteq> [] \<and> q \<noteq> [] \<longrightarrow>
      (\<forall>i j k. valid_path (topics s) i j k \<longrightarrow>
         (let old = question_at (topics s) i j k;
              new = question_at (topics (updateQuestion parses t sb q (Some qd) s)) i j k in
          if addressed (topics s) t sb q i j k
          then title new
                 = (if truthy (data_title qd) then sanitizeString (data_title qd) []
                    else title old)
             \<and> difficulty new
                 = (if truthy (data_difficulty qd)
                    then JStr (validateDifficulty (data_difficulty qd)) else difficulty old)
             \<and> url new
                 = (if data_url qd \<noteq> JUndefined then validateUrl parses (data_url qd)
                    else url old)
             \<and> new\<lparr>title := title old, difficulty := difficulty old, url := url old\<rparr> = old
             \<and> ((data_title qd = JUndefined \<or> truthy (data_title qd))
                  \<and> (data_difficulty qd = JUndefined \<or> truthy (data_difficulty qd)) \<longrightarrow>
                  new = claimed_merge parses qd old)
          else new = old)))
   \<and> (\<forall>i j k. valid_path (topics (updateQuestion parses t sb q qdo s)) i j k
                = valid_path (topics s) i j k)
   \<and> skeleton (topics (updateQuestion parses t sb q qdo s)) = skeleton (topics s)
   \<and> updateQuestion parses t sb q qdo s = s\<lparr>topics := topics (updateQuestion parses t sb q qdo s)\<rparr>
   \<and> ((\<forall>i j k. valid_path (topics s) i j k \<longrightarrow> \<not> addressed (topics s) t sb q i j k) \<longrightarrow>
        updateQuestion parses t sb q qdo s = s)
   \<and> (t = [] \<or> sb = [] \<or> q = [] \<or> qdo = None \<longrightarrow> updateQuestion parses t sb q qdo s = s)"
proof (intro conjI impI allI)
  fix i j k
  assume ne: "t \<noteq> [] \<and> sb \<noteq> [] \<and> q \<noteq> []" and v: "valid_path (topics s) i j k"
  then have at: "question_at (topics (updateQuestion parses t sb q (Some qd) s)) i j k
         = (if addressed (topics s) t sb q i j k
            then merge_question parses qd (question_at (topics s) i j k)
            else question_at (topics s) i j k)"
    by (simp add: updateQuestion_at)
  show "let old = question_at (topics s) i j k;
              new = question_at (topics (updateQuestion parses t sb q (Some qd) s)) i j k in
          if addressed (topics s) t sb q i j k
          then title new
                 = (if truthy (data_title qd) then sanitizeString (data_title qd) []
                    else title old)
             \<and> difficulty new
                 = (if truthy (data_difficulty qd)
                    then JStr (validateDifficulty (data_difficulty qd)) else difficulty old)
             \<and> url new
                 = (if data_url qd \<noteq> JUndefined then validateUrl parses (data_url qd)
                    else url old)
             \<and> new\<lparr>title := title old, difficulty := difficulty old, url := url old\<rparr> = old
             \<and> ((data_title qd = JUndefined \<or> truthy (data_title qd))
                  \<and> (data_difficulty qd = JUndefined \<or> truthy (data_difficulty qd)) \<longrightarrow>
                  new = claimed_merge parses qd old)
          else new = old"
    unfolding Let_def at
    using merge_question_fields [where parses = parses and qd = qd
        and q = "question_at (topics s) i j k"]
      merge_question_claimed [where parses = parses and qd = qd
        and q = "question_at (topics s) i j k"]
    by simp
next
  fix i j k
  show "valid_path (topics (updateQuestion parses t sb q qdo s)) i j k
        = valid_path (topics s) i j k"
    unfolding valid_path_def
    using updateQuestion_lengths [where parses = parses and t = t and sb = sb and q = q
        and qd = qdo and s = s]
    by auto
next
  show "skeleton (topics (updateQuestion parses t sb q qdo s)) = skeleton (topics s)"
    by (rule updateQuestion_skeleton)
next
  show "updateQuestion parses t sb q qdo s = s\<lparr>topics := topics (updateQuestion parses t sb q qdo s)\<rparr>"
    by (simp add: updateQuestion_def split: option.split)
next
  assume "\<forall>i j k. valid_path (topics s) i j k \<longrightarrow> \<not> addressed (topics s) t sb q i j k"
  then show "updateQuestion parses t sb q qdo s = s"
    by (rule updateQuestion_not_found)
next
  assume "t = [] \<or> sb = [] \<or> q = [] \<or> qdo = None"
  then show "updateQuestion parses t sb q qdo s = s"
    using updateQuestion_guard [of t sb q parses qdo s] updateQuestion_None [of parses t sb q s]
    by auto
qed

theorem updateQuestion_merges_witness:
  "valid_path (topics ex_state) (Suc 0) 0 0
   \<and> addressed (topics ex_state) ''B'' ''s1'' ''q1'' (Suc 0) 0 0
   \<and> title (question_at (topics (updateQuestion ex_parses ''B'' ''s1'' ''q1'' (Some new_fields)
        ex_state)) (Suc 0) 0 0) = ''2Sum''
   \<and> difficulty (question_at (topics (updateQuestion ex_parses ''B'' ''s1'' ''q1'' (Some new_fields)
        ex_state)) (Suc 0) 0 0) = JStr ''Medium''
   \<and> url (question_at (topics (updateQuestion ex_parses ''B'' ''s1'' ''q1'' (Some new_fields)
        ex_state)) (Suc 0) 0 0) = ''http''
   \<and> valid_path (topics ex_state) (Suc 0) 0 (Suc 0)
   \<and> \<not> addressed (topics ex_state) ''B'' ''s1'' ''q1'' (Suc 0) 0 (Suc 0)
   \<and> question_at (topics (updateQuestion ex_parses ''B'' ''s1'' ''q1'' (Some new_fields)
        ex_state)) (Suc 0) 0 (Suc 0) = question_at (topics ex_state) (Suc 0) 0 (Suc 0)
   \<and> updateQuestion ex_parses ''B'' ''s1'' ''zz'' (Some new_fields) ex_state = ex_state
   \<and> updateQuestion ex_parses ''B'' [] ''q1'' (Some new_fields) ex_state = ex_state"
proof -
  have ne: "''B'' \<noteq> [] \<and> ''s1'' \<noteq> [] \<and> ''q1'' \<noteq> []" by simp
  have v: "valid_path (topics ex_state) (Suc 0) 0 0" "valid_path (topics ex_state) (Suc 0) 0 (Suc 0)"
    by code_simp+
  have a: "addressed (topics ex_state) ''B'' ''s1'' ''q1'' (Suc 0) 0 0"
    "\<not> addressed (topics ex_state) ''B'' ''s1'' ''q1'' (Suc 0) 0 (Suc 0)"
    by code_simp+
  have vals: "sanitizeString (data_title new_fields) [] = ''2Sum''"
    "validateDifficulty (data_difficulty new_fields) = ''Medium''"
    "validateUrl ex_parses (data_url new_fields) = ''http''"
    "truthy (data_title new_fields)" "truthy (data_difficulty new_fields)"
    "data_url new_fields \<noteq> JUndefined"
    by code_simp+
  note T = updateQuestion_merges [where parses = ex_parses and t = "''B''" and sb = "''s1''"
      and q = "''q1''" and qd = new_fields and s = ex_state and qdo = "Some new_fields",
      THEN conjunct1, rule_format, OF ne, unfolded Let_def]
  have absent: "''zz'' \<notin> ids (concat (map questions (concat (map subtopics (topics ex_state)))))"
    by code_simp
  have nf: "\<forall>i j k. valid_path (topics ex_state) i j k \<longrightarrow>
      \<not> addressed (topics ex_state) ''B'' ''s1'' ''zz'' i j k"
    using absent addressed_in_tree by blast
  note N = updateQuestion_merges [where parses = ex_parses and t = "''B''" and sb = "''s1''"
      and q = "''zz''" and qd = new_fields and s = ex_state and qdo = "Some new_fields",
      THEN conjunct2, THEN conjunct2, THEN conjunct2, THEN conjunct2, THEN conjunct1,
      THEN mp, OF nf]
  note G = updateQuestion_merges [where parses = ex_parses and t = "''B''" and sb = "[]"
      and q = "''q1''" and qd = new_fields and s = ex_state and qdo = "Some new_fields",
      THEN conjunct2, THEN conjunct2, THEN conjunct2, THEN conjunct2, THEN conjunct2,
      rule_format, OF disjI2, OF disjI1, OF refl]
  note T1 = T [OF v(1), unfolded if_P [OF a(1)]]
  have f1: "title (question_at (topics (updateQuestion ex_parses ''B'' ''s1'' ''q1''
        (Some new_fields) ex_state)) (Suc 0) 0 0) = ''2Sum''"
    using T1 [THEN conjunct1] by (simp only: vals if_True)
  have f2: "difficulty (question_at (topics (updateQuestion ex_parses ''B'' ''s1'' ''q1''
        (Some new_fields) ex_state)) (Suc 0) 0 0) = JStr ''Medium''"
    using T1 [THEN conjunct2, THEN conjunct1] by (simp only: vals if_True)
  have f3: "url (question_at (topics (updateQuestion ex_parses ''B'' ''s1'' ''q1''
        (Some new_fields) ex_state)) (Suc 0) 0 0) = ''http''"
    using T1 [THEN conjunct2, THEN conjunct2, THEN conjunct1]
    by (simp only: vals if_True not_False_eq_True)
  note T2 = T [OF v(2), unfolded if_not_P [OF a(2)]]
  show ?thesis
    by (intro conjI) (rule v a f1 f2 f3 T2 N G)+
qed

text \<open>
  C4 as stated fails for a field that is present and falsy: with the empty string as
  title and as difficulty, the claim has the title replaced by the sanitized value (the
  empty string) and the difficulty by \<^verbatim>\<open>Medium\<close>; the code leaves both as they were.
\<close>

theorem updateQuestion_counterexample:
  "valid_path (topics ex_state) (Suc 0) 0 0
   \<and> addressed (topics ex_state) ''B'' ''s1'' ''q1'' (Suc 0) 0 0
   \<and> data_title empty_fields \<noteq> JUndefined \<and> data_difficulty empty_fields \<noteq> JUndefined
   \<and> title (question_at (topics (updateQuestion ex_parses ''B'' ''s1'' ''q1'' (Some empty_fields)
        ex_state)) (Suc 0) 0 0) = ''Two Sum''
   \<and> title (claimed_merge ex_parses empty_fields (question_at (topics ex_state) (Suc 0) 0 0)) = []
   \<and> difficulty (question_at (topics (updateQuestion ex_parses ''B'' ''s1'' ''q1''
        (Some empty_fields) ex_state)) (Suc 0) 0 0) = JStr ''Easy''
   \<and> difficulty (claimed_merge ex_parses empty_fields (question_at (topics ex_state) (Suc 0) 0 0))
       = JStr ''Medium''"
  by code_simp

section \<open>Properties of the ingest\<close>

lemma first_seen_set: "set (first_seen xs) = set xs"
  by (induction xs) auto

lemma first_seen_distinct: "distinct (first_seen xs)"
  by (induction xs) (auto simp: first_seen_set)

lemma first_seen_snoc:
  "first_seen (xs @ [a]) = (if a \<in> set xs then first_seen xs else first_seen xs @ [a])"
  by (induction xs) (auto simp: first_seen_set)

lemma keyed_names:
  "map fst (map (\<lambda>(i, n). (n, F i n)) (enumerate m names)) = names"
  by (induction names arbitrary: m) simp_all

lemma keyed_lookup_None:
  assumes "K \<notin> set names"
  shows "map_of (map (\<lambda>(i, n). (n, F i n)) (enumerate m names)) K = None"
proof -
  let ?al = "map (\<lambda>(i, n). (n, F i n)) (enumerate m names)"
  have "fst ` set ?al = set (map fst ?al)" by (simp only: set_map)
  also have "\<dots> = set names" by (simp only: keyed_names)
  finally show ?thesis using assms by (simp only: map_of_eq_None_iff not_False_eq_True)
qed

lemma keyed_lookup_Some:
  assumes "distinct names" "(i, K) \<in> set (enumerate m names)"
  shows "map_of (map (\<lambda>(i, n). (n, F i n)) (enumerate m names)) K = Some (F i K)"
proof -
  have "distinct (map fst (map (\<lambda>(i, n). (n, F i n)) (enumerate m names)))"
    using assms(1) by (simp only: keyed_names)
  moreover have "(K, F i K) \<in> set (map (\<lambda>(i, n). (n, F i n)) (enumerate m names))"
    using assms(2) by force
  ultimately show ?thesis by (rule map_of_is_SomeI)
qed

lemma keyed_member:
  "K \<in> set names \<Longrightarrow> \<exists>i. (i, K) \<in> set (enumerate m names)"
  by (metis in_set_conv_nth in_set_enumerate_eq add.commute add_diff_cancel_left' fst_conv
      le_add1 nat_add_left_cancel_less snd_conv)

lemma keyed_update:
  assumes "distinct names"
    and "\<And>i n. n \<noteq> K \<Longrightarrow> F' i n = F i n"
    and "\<And>i. (i, K) \<in> set (enumerate m names) \<Longrightarrow> V = F' i K"
    and "K \<notin> set names \<Longrightarrow> V = F' (m + length names) K"
  shows "AList.update K V (map (\<lambda>(i, n). (n, F i n)) (enumerate m names))
         = map (\<lambda>(i, n). (n, F' i n))
             (enumerate m (if K \<in> set names then names else names @ [K]))"
  using assms
proof (induction names arbitrary: m)
  case Nil
  then show ?case by simp
next
  case (Cons a names)
  show ?case
  proof (cases "a = K")
    case True
    with Cons.prems(1) have notin: "K \<notin> set names" by simp
    have same: "map (\<lambda>(i, n). (n, F i n)) (enumerate (Suc m) names)
              = map (\<lambda>(i, n). (n, F' i n)) (enumerate (Suc m) names)"
    proof (rule map_cong [OF refl])
      fix p assume "p \<in> set (enumerate (Suc m) names)"
      then have "snd p \<in> set names"
        by (metis in_set_enumerate_eq nth_mem add.commute less_diff_conv2)
      with notin have "snd p \<noteq> K" by blast
      then show "(case p of (i, n) \<Rightarrow> (n, F i n)) = (case p of (i, n) \<Rightarrow> (n, F' i n))"
        by (simp add: case_prod_unfold Cons.prems(2))
    qed
    have "V = F' m K"
      by (rule Cons.prems(3)) (simp add: True)
    with True same show ?thesis by simp
  next
    case False
    have ih: "AList.update K V (map (\<lambda>(i, n). (n, F i n)) (enumerate (Suc m) names))
         = map (\<lambda>(i, n). (n, F' i n))
             (enumerate (Suc m) (if K \<in> set names then names else names @ [K]))"
    proof (rule Cons.IH)
      show "distinct names" using Cons.prems(1) by simp
      show "\<And>i n. n \<noteq> K \<Longrightarrow> F' i n = F i n" by (rule Cons.prems(2))
      show "\<And>i. (i, K) \<in> set (enumerate (Suc m) names) \<Longrightarrow> V = F' i K"
        by (rule Cons.prems(3)) simp
      show "K \<notin> set names \<Longrightarrow> V = F' (Suc m + length names) K"
        using Cons.prems(4) False by simp
    qed
    from False show ?thesis
      by (simp add: ih Cons.prems(2)) 
  qed
qed

lemma length_group_questions: "length (group_questions parses rs tn sn) = length rs"
  by (simp add: group_questions_def)

lemma group_questions_snoc:
  "group_questions parses (rs @ [(q, qid)]) tn sn
   = group_questions parses rs tn sn @ [make_question parses q qid tn sn (length rs)]"
  by (simp add: group_questions_def enumerate_append_eq)

lemma filter_absent_key:
  "K \<notin> set (first_seen (map f rs)) \<Longrightarrow> filter (\<lambda>r. f r = K) rs = []"
  by (auto simp: first_seen_set filter_empty_conv)

lemma place_subs:
  assumes sn: "subtopic_name q = sn"
  shows "push_sub parses (acc_subs parses trs tid tn) tid tn sn q qid
         = acc_subs parses (trs @ [(q, qid)]) tid tn"
proof -
  let ?subs = "acc_subs parses trs tid tn"
  let ?sub = "case map_of ?subs sn of
               Some s \<Rightarrow> s
             | None \<Rightarrow> \<lparr> item_id = ''subtopic-'' @ tid @ ''-'' @ digits (length ?subs),
                         order = length ?subs, name = sn, questions = [] \<rparr>"
  let ?V = "?sub\<lparr>questions := questions ?sub @
              [make_question parses q qid tn sn (length (questions ?sub))]\<rparr>"
  let ?names = "first_seen (map (\<lambda>r. subtopic_name (fst r)) trs)"
  let ?F = "group_subtopic parses trs tid tn"
  let ?F' = "group_subtopic parses (trs @ [(q, qid)]) tid tn"
  have subs: "?subs = map (\<lambda>(j, n). (n, ?F j n)) (enumerate 0 ?names)"
    by (simp add: acc_subs_def)
  have len: "length ?subs = length ?names"
    by (simp add: acc_subs_def)
  have names': "first_seen (map (\<lambda>r. subtopic_name (fst r)) (trs @ [(q, qid)]))
        = (if sn \<in> set ?names then ?names else ?names @ [sn])"
    by (simp add: first_seen_snoc first_seen_set sn)
  have "AList.update sn ?V (map (\<lambda>(j, n). (n, ?F j n)) (enumerate 0 ?names))
        = map (\<lambda>(j, n). (n, ?F' j n))
            (enumerate 0 (if sn \<in> set ?names then ?names else ?names @ [sn]))"
  proof (rule keyed_update)
    show "distinct ?names" by (rule first_seen_distinct)
  next
    fix j n assume "n \<noteq> sn"
    then show "?F' j n = ?F j n"
      by (simp add: group_subtopic_def sn)
  next
    fix j assume "(j, sn) \<in> set (enumerate 0 ?names)"
    then have "map_of ?subs sn = Some (?F j sn)"
      unfolding subs by (rule keyed_lookup_Some [OF first_seen_distinct])
    then show "?V = ?F' j sn"
      by (simp add: group_subtopic_def sn group_questions_snoc length_group_questions)
  next
    assume notin: "sn \<notin> set ?names"
    then have "map_of ?subs sn = None"
      unfolding subs by (rule keyed_lookup_None)
    moreover have "filter (\<lambda>r. subtopic_name (fst r) = sn) trs = []"
      using notin by (rule filter_absent_key)
    ultimately show "?V = ?F' (0 + length ?names) sn"
      by (simp add: group_subtopic_def sn len group_questions_def)
  qed
  then have "AList.update sn ?V ?subs = acc_subs parses (trs @ [(q, qid)]) tid tn"
    by (simp only: subs [symmetric]) (simp only: acc_subs_def names')
  then show ?thesis
    by (simp only: push_sub_def Let_def)
qed

lemma place_grouped:
  "place parses (grouped_acc parses rs) (q, qid) = grouped_acc parses (rs @ [(q, qid)])"
proof -
  let ?T = "topic_name q"
  let ?tm = "grouped_acc parses rs"
  let ?topic = "case map_of ?tm ?T of
               Some t \<Rightarrow> t
             | None \<Rightarrow> \<lparr> item_id = ''topic-'' @ digits (length ?tm),
                         order = length ?tm, name = ?T, acc_subtopics = [] \<rparr>"
  let ?V = "?topic\<lparr>acc_subtopics :=
              push_sub parses (acc_subtopics ?topic) (item_id ?topic) ?T (subtopic_name q) q qid\<rparr>"
  let ?names = "first_seen (map (\<lambda>r. topic_name (fst r)) rs)"
  let ?F = "acc_topic parses rs"
  let ?F' = "acc_topic parses (rs @ [(q, qid)])"
  have tm: "?tm = map (\<lambda>(i, n). (n, ?F i n)) (enumerate 0 ?names)"
    by (simp add: grouped_acc_def)
  have len: "length ?tm = length ?names"
    by (simp add: grouped_acc_def)
  have names': "first_seen (map (\<lambda>r. topic_name (fst r)) (rs @ [(q, qid)]))
        = (if ?T \<in> set ?names then ?names else ?names @ [?T])"
    by (simp add: first_seen_snoc first_seen_set)
  have "AList.update ?T ?V (map (\<lambda>(i, n). (n, ?F i n)) (enumerate 0 ?names))
        = map (\<lambda>(i, n). (n, ?F' i n))
            (enumerate 0 (if ?T \<in> set ?names then ?names else ?names @ [?T]))"
  proof (rule keyed_update)
    show "distinct ?names" by (rule first_seen_distinct)
  next
    fix i n assume "n \<noteq> ?T"
    then show "?F' i n = ?F i n"
      by (simp add: acc_topic_def)
  next
    fix i assume "(i, ?T) \<in> set (enumerate 0 ?names)"
    then have "map_of ?tm ?T = Some (?F i ?T)"
      unfolding tm by (rule keyed_lookup_Some [OF first_seen_distinct])
    then show "?V = ?F' i ?T"
      by (simp add: acc_topic_def place_subs)
  next
    assume notin: "?T \<notin> set ?names"
    then have none: "map_of ?tm ?T = None"
      unfolding tm by (rule keyed_lookup_None)
    have empty: "filter (\<lambda>r. topic_name (fst r) = ?T) rs = []"
      using notin by (rule filter_absent_key)
    have "push_sub parses (acc_subs parses [] (''topic-'' @ digits (length ?names)) ?T)
            (''topic-'' @ digits (length ?names)) ?T (subtopic_name q) q qid
          = acc_subs parses ([] @ [(q, qid)]) (''topic-'' @ digits (length ?names)) ?T"
      by (rule place_subs) simp
    moreover have "acc_subs parses [] (''topic-'' @ digits (length ?names)) ?T = []"
      by (simp add: acc_subs_def)
    ultimately show "?V = ?F' (0 + length ?names) ?T"
      by (simp add: acc_topic_def none len empty)
  qed
  then have "AList.update ?T ?V ?tm = grouped_acc parses (rs @ [(q, qid)])"
    by (simp only: tm [symmetric]) (simp only: grouped_acc_def names')
  then show ?thesis
    by (simp only: place_def Let_def prod.case)
qed

lemma foldl_place:
  "foldl (place parses) (grouped_acc parses rs0) rs = grouped_acc parses (rs0 @ rs)"
proof (induction rs arbitrary: rs0)
  case Nil
  show ?case by simp
next
  case (Cons r rs)
  obtain q qid where r: "r = (q, qid)" by (cases r)
  have "foldl (place parses) (grouped_acc parses rs0) (r # rs)
        = foldl (place parses) (grouped_acc parses (rs0 @ [r])) rs"
    by (simp add: r place_grouped)
  also have "\<dots> = grouped_acc parses ((rs0 @ [r]) @ rs)"
    by (rule Cons.IH)
  finally show ?case by simp
qed

lemma grouped_acc_Nil: "grouped_acc parses [] = []"
  by (simp add: grouped_acc_def)

lemma finish_grouped:
  "map (\<lambda>(_, t). finish_topic t) (grouped_acc parses rs) = grouped_topics parses rs"
  by (simp add: grouped_acc_def grouped_topics_def finish_topic_def acc_topic_def
      group_topic_def acc_subs_def Let_def case_prod_unfold comp_def)

lemma ingest_step_place:
  "ingest_step parses uuids (tm, k) q
   = (place parses tm (q, fst (id_or_generate ''question'' uuids k (raw_id q))),
      snd (id_or_generate ''question'' uuids k (raw_id q)))"
proof (cases "id_or_generate ''question'' uuids k (raw_id q)")
  case (Pair i k')
  then show ?thesis
    by (simp add: ingest_step_def place_def push_sub_def topic_name_def subtopic_name_def Let_def)
qed

lemma id_or_generate_count:
  "snd (id_or_generate ''question'' uuids k (raw_id q)) = (if needs_id q then Suc k else k)"
  by (simp add: id_or_generate_def needs_id_def split: option.split)

lemma foldl_ingest_step:
  "foldl (ingest_step parses uuids) (tm, k) qs
   = (foldl (place parses) tm (zip qs (assign_ids uuids k qs)), draws k qs)"
proof (induction qs arbitrary: tm k)
  case Nil
  show ?case by (simp add: draws_def)
next
  case (Cons q qs)
  show ?case
    by (simp add: ingest_step_place Cons.IH case_prod_unfold Let_def)
       (simp add: draws_def id_or_generate_count)
qed

lemma ingest_topics:
  "foldl (ingest_step parses uuids) ([], 0) qs
   = (grouped_acc parses (zip qs (assign_ids uuids 0 qs)), draws 0 qs)"
  using foldl_place [of parses "[]" "zip qs (assign_ids uuids 0 qs)"]
  by (simp add: foldl_ingest_step grouped_acc_Nil)

lemma transform_grouped:
  assumes "doc_sheet d = Some sh" "doc_records d = Some qs"
  shows "transformSheetData parses uuids d
         = Inr (make_sheet parses sh
                  (fst (id_or_generate ''sheet'' uuids (draws 0 qs) (rs_id sh))),
                grouped_topics parses (zip qs (assign_ids uuids 0 qs)))"
proof -
  from assms(2) have "doc_questions d = Some (ArrayOf (map Some qs))"
    by (rule doc_records_Some)
  with assms(1) obtain doc dd where d: "d = Some doc" "data doc = Some dd"
    "raw_sheet dd = Some sh" "raw_questions dd = Some (ArrayOf (map Some qs))"
    by (auto simp: doc_sheet_def doc_questions_def split: option.splits)
  show ?thesis
    by (simp add: transformSheetData_def d ingest_all_records ingest_topics finish_grouped
        split: prod.split)
qed

lemma digits_0: "digits 0 = ''0''"
  by code_simp

lemma grouped_names:
  "map name (grouped_topics parses rs) = first_seen (map (\<lambda>r. topic_name (fst r)) rs)"
  "map order (grouped_topics parses rs)
   = [0..<length (first_seen (map (\<lambda>r. topic_name (fst r)) rs))]"
  by (rule nth_equalityI;
      simp add: grouped_topics_def group_topic_def Let_def nth_enumerate_eq)+

lemma grouped_pair:
  assumes "topic_name q1 = topic_name q2" "subtopic_name q1 = subtopic_name q2"
  shows "grouped_topics parses [(q1, i1), (q2, i2)]
         = [\<lparr> item_id = ''topic-0'', order = 0, name = topic_name q1,
              subtopics =
                [\<lparr> item_id = ''subtopic-topic-0-0'', order = 0, name = subtopic_name q1,
                   questions =
                     [make_question parses q1 i1 (topic_name q1) (subtopic_name q1) 0,
                      make_question parses q2 i2 (topic_name q1) (subtopic_name q1) 1] \<rparr>] \<rparr>]"
  using assms
  by (simp add: grouped_topics_def group_topic_def group_subtopic_def group_questions_def
      Let_def digits_0 del: digits.simps)

text \<open>
  C3.  For a document with a sheet and a list of question records, the topics returned
  by \<open>transformSheetData\<close> are the grouping of the records by sanitized topic name and,
  within a topic, by sanitized subtopic name: topics and subtopics stand in first-seen
  order, have that index as \<^verbatim>\<open>order\<close> and occur once each (a record whose names were seen
  before goes to the existing topic and subtopic), and the questions of a subtopic are its
  records in input order, each with its index in the subtopic (the number of questions
  held when it was appended) as \<^verbatim>\<open>order\<close>.  Two records with the same topic and subtopic
  name give one topic with one subtopic holding two questions with \<^verbatim>\<open>order\<close> 0 and 1.
\<close>

theorem ingest_groups:
  "(doc_sheet d = Some sh \<and> doc_records d = Some qs \<longrightarrow>
      transformSheetData parses uuids d
        = Inr (make_sheet parses sh
                 (fst (id_or_generate ''sheet'' uuids (draws 0 qs) (rs_id sh))),
               grouped_topics parses (zip qs (assign_ids uuids 0 qs))))
   \<and> map name (grouped_topics parses rs) = first_seen (map (\<lambda>r. topic_name (fst r)) rs)
   \<and> map order (grouped_topics parses rs)
       = [0..<length (first_seen (map (\<lambda>r. topic_name (fst r)) rs))]
   \<and> (topic_name q1 = topic_name q2 \<and> subtopic_name q1 = subtopic_name q2 \<longrightarrow>
        grouped_topics parses [(q1, i1), (q2, i2)]
          = [\<lparr> item_id = ''topic-0'', order = 0, name = topic_name q1,
               subtopics =
                 [\<lparr> item_id = ''subtopic-topic-0-0'', order = 0, name = subtopic_name q1,
                    questions =
                      [make_question parses q1 i1 (topic_name q1) (subtopic_name q1) 0,
                       make_question parses q2 i2 (topic_name q1) (subtopic_name q1) 1] \<rparr>] \<rparr>])"
  using transform_grouped [of d sh qs parses uuids] grouped_names [of parses rs]
    grouped_pair [of q1 q2 parses i1 i2]
  by blast

theorem ingest_groups_witness:
  "doc_sheet good_doc = Some ex_raw_sheet \<and> doc_records good_doc = Some ex_records
   \<and> transformSheetData ex_parses ex_uuids good_doc
       = Inr (make_sheet ex_parses ex_raw_sheet
                (fst (id_or_generate ''sheet'' ex_uuids (draws 0 ex_records) (rs_id ex_raw_sheet))),
              grouped_topics ex_parses (zip ex_records (assign_ids ex_uuids 0 ex_records)))
   \<and> map (\<lambda>t. (item_id t, name t, order t,
              map (\<lambda>s. (item_id s, name s, order s,
                         map (\<lambda>q. (item_id q, order q)) (questions s))) (subtopics t)))
         (grouped_topics ex_parses (zip ex_records (assign_ids ex_uuids 0 ex_records)))
       = [(''topic-0'', ''Arrays'', 0,
             [(''subtopic-topic-0-0'', ''Basics'', 0, [(''qa'', 0), (''qb'', 1)])]),
          (''topic-1'', ''Graphs'', 1,
             [(''subtopic-topic-1-0'', ''BFS'', 0, [(''question-uuid0'', 0)])])]
   \<and> topic_name (ex_records ! 0) = topic_name (ex_records ! 2)
   \<and> subtopic_name (ex_records ! 0) = subtopic_name (ex_records ! 2)
   \<and> grouped_topics ex_parses [(ex_records ! 0, ''qa''), (ex_records ! 2, ''qb'')]
       = [\<lparr> item_id = ''topic-0'', order = 0, name = topic_name (ex_records ! 0),
            subtopics =
              [\<lparr> item_id = ''subtopic-topic-0-0'', order = 0,
                 name = subtopic_name (ex_records ! 0),
                 questions =
                   [make_question ex_parses (ex_records ! 0) ''qa''
                      (topic_name (ex_records ! 0)) (subtopic_name (ex_records ! 0)) 0,
                    make_question ex_parses (ex_records ! 2) ''qb''
                      (topic_name (ex_records ! 0)) (subtopic_name (ex_records ! 0)) 1] \<rparr>] \<rparr>]"
proof -
  have h: "doc_sheet good_doc = Some ex_raw_sheet \<and> doc_records good_doc = Some ex_records"
    by code_simp
  note T = ingest_groups [where d = good_doc and sh = ex_raw_sheet and qs = ex_records
      and parses = ex_parses and uuids = ex_uuids, THEN conjunct1, rule_format, OF h]
  have v: "map (\<lambda>t. (item_id t, name t, order t,
              map (\<lambda>s. (item_id s, name s, order s,
                         map (\<lambda>q. (item_id q, order q)) (questions s))) (subtopics t)))
         (grouped_topics ex_parses (zip ex_records (assign_ids ex_uuids 0 ex_records)))
       = [(''topic-0'', ''Arrays'', 0,
             [(''subtopic-topic-0-0'', ''Basics'', 0, [(''qa'', 0), (''qb'', 1)])]),
          (''topic-1'', ''Graphs'', 1,
             [(''subtopic-topic-1-0'', ''BFS'', 0, [(''question-uuid0'', 0)])])]"
    by code_simp
  have p: "topic_name (ex_records ! 0) = topic_name (ex_records ! 2)
      \<and> subtopic_name (ex_records ! 0) = subtopic_name (ex_records ! 2)"
    by code_simp
  note P = ingest_groups [where parses = ex_parses and ?q1.0 = "ex_records ! 0"
      and ?q2.0 = "ex_records ! 2" and ?i1.0 = "''qa''" and ?i2.0 = "''qb''",
      THEN conjunct2, THEN conjunct2, THEN conjunct2, rule_format, OF p]
  show ?thesis
    by (intro conjI) (rule h [THEN conjunct1] h [THEN conjunct2] T v p [THEN conjunct1]
        p [THEN conjunct2] P)+
qed


section \<open>The ids and filters of a reachable store\<close>

lemma generateId_nonempty: "generateId prefix uuid \<noteq> []"
  by (simp add: generateId_def)

lemma set_take_drop: "set (take k ys) \<union> set (drop k ys) = set ys"
  by (metis append_take_drop_id set_append)

lemma set_splice_insert: "set (splice_insert ys j x) = insert x (set ys)"
  using set_take_drop [of "splice_start ys j" ys]
  by (auto simp: splice_insert_def Let_def)

lemma set_splice_remove1:
  "set (fst (splice_remove1 xs i)) \<subseteq> set xs" "set (snd (splice_remove1 xs i)) \<subseteq> set xs"
  by (auto simp: splice_remove1_def Let_def dest: in_set_takeD in_set_dropD)

lemma ids_renumber: "ids (renumber ys) = ids ys"
  unfolding ids_def using map_id_renumber [of ys] by (metis set_map)

lemma ids_reorderArray: "ids (reorderArray xs i j) \<subseteq> ids xs"
proof (cases "i = - 1 \<or> j = - 1 \<or> i = j")
  case True
  then show ?thesis by (auto simp: reorderArray_def)
next
  case False
  obtain r rest where sr: "splice_remove1 xs i = (r, rest)" by (cases "splice_remove1 xs i")
  with set_splice_remove1 [of xs i] have sub: "set r \<subseteq> set xs" "set rest \<subseteq> set xs" by simp_all
  have "set (case r of [] \<Rightarrow> rest | x # _ \<Rightarrow> splice_insert rest j x) \<subseteq> set xs"
    using sub by (cases r) (auto simp: set_splice_insert)
  then have "ids (renumber (case r of [] \<Rightarrow> rest | x # _ \<Rightarrow> splice_insert rest j x)) \<subseteq> ids xs"
    unfolding ids_renumber by (auto simp: ids_def)
  with False show ?thesis by (simp add: reorderArray_def sr)
qed

lemma nonempty_ids_Nil: "nonempty_ids []"
  by (simp add: nonempty_ids_def)

lemma nonempty_toggleQuestionSolved:
  "nonempty_ids (topics s) \<Longrightarrow> nonempty_ids (topics (toggleQuestionSolved q s))"
  by (auto simp: nonempty_ids_def toggleQuestionSolved_def)

lemma nonempty_toggleAllInSubtopic:
  "nonempty_ids (topics s) \<Longrightarrow> nonempty_ids (topics (toggleAllInSubtopic t sb v s))"
  by (auto simp: nonempty_ids_def toggleAllInSubtopic_def updateTopicsNested_def
      split: if_splits)

lemma nonempty_updateQuestionNotes:
  "nonempty_ids (topics s) \<Longrightarrow> nonempty_ids (topics (updateQuestionNotes q v s))"
  by (auto simp: nonempty_ids_def updateQuestionNotes_def)

lemma nonempty_addTopic:
  "nonempty_ids (topics s) \<Longrightarrow> nonempty_ids (topics (addTopic uuid nm s))"
  by (auto simp: nonempty_ids_def addTopic_def Let_def generateId_def)

lemma nonempty_updateTopic:
  "nonempty_ids (topics s) \<Longrightarrow> nonempty_ids (topics (updateTopic t nm s))"
  by (auto simp: nonempty_ids_def updateTopic_def Let_def split: if_splits)

lemma nonempty_deleteTopic:
  "nonempty_ids (topics s) \<Longrightarrow> nonempty_ids (topics (deleteTopic t s))"
  by (auto simp: nonempty_ids_def deleteTopic_def Let_def)

lemma nonempty_addSubtopic:
  "nonempty_ids (topics s) \<Longrightarrow> nonempty_ids (topics (addSubtopic uuid t nm s))"
  by (auto simp: nonempty_ids_def addSubtopic_def Let_def generateId_def
      split: if_splits)

lemma nonempty_updateSubtopic:
  "nonempty_ids (topics s) \<Longrightarrow> nonempty_ids (topics (updateSubtopic t sb nm s))"
  by (auto simp: nonempty_ids_def updateSubtopic_def Let_def split: if_splits)

lemma nonempty_deleteSubtopic:
  "nonempty_ids (topics s) \<Longrightarrow> nonempty_ids (topics (deleteSubtopic t sb s))"
  by (auto simp: nonempty_ids_def deleteSubtopic_def Let_def split: if_splits)

lemma nonempty_addQuestion:
  "nonempty_ids (topics s) \<Longrightarrow> nonempty_ids (topics (addQuestion parses uuid t sb qd s))"
  by (auto simp: nonempty_ids_def addQuestion_def Let_def generateId_def
      split: if_splits option.splits)

lemma item_id_merge_question: "item_id (merge_question parses qd q) = item_id q"
  by (simp add: merge_question_def Let_def)

lemma nonempty_updateQuestion:
  "nonempty_ids (topics s) \<Longrightarrow> nonempty_ids (topics (updateQuestion parses t sb q qd s))"
  by (auto simp: nonempty_ids_def updateQuestion_def item_id_merge_question
      split: if_splits option.splits)

lemma nonempty_deleteQuestion:
  "nonempty_ids (topics s) \<Longrightarrow> nonempty_ids (topics (deleteQuestion t sb q s))"
  by (auto simp: nonempty_ids_def deleteQuestion_def split: if_splits)

lemma renumber_elem:
  "x \<in> set (renumber zs) \<Longrightarrow> \<exists>y \<in> set zs. \<exists>n. x = y\<lparr>order := n\<rparr>"
proof -
  assume "x \<in> set (renumber zs)"
  then obtain k where "k < length zs" "x = renumber zs ! k"
    by (auto simp: in_set_conv_nth length_renumber)
  then have "zs ! k \<in> set zs" "x = (zs ! k)\<lparr>order := k\<rparr>"
    by (simp_all add: renumber_nth)
  then show ?thesis by blast
qed

lemma reorderArray_elem:
  assumes "x \<in> set (reorderArray xs i j)"
  shows "\<exists>y \<in> set xs. \<exists>n. x = y\<lparr>order := n\<rparr>"
proof (cases "i = - 1 \<or> j = - 1 \<or> i = j")
  case True
  with assms have "x \<in> set xs" "x = x\<lparr>order := order x\<rparr>"
    by (auto simp: reorderArray_def)
  then show ?thesis by blast
next
  case False
  obtain r rest where sr: "splice_remove1 xs i = (r, rest)" by (cases "splice_remove1 xs i")
  with set_splice_remove1 [of xs i] have sub: "set r \<subseteq> set xs" "set rest \<subseteq> set xs" by simp_all
  let ?zs = "case r of [] \<Rightarrow> rest | x # _ \<Rightarrow> splice_insert rest j x"
  have zs: "set ?zs \<subseteq> set xs"
    using sub by (cases r) (auto simp: set_splice_insert)
  from assms False have "x \<in> set (renumber ?zs)"
    by (simp add: reorderArray_def sr)
  then obtain y n where "y \<in> set ?zs" "x = y\<lparr>order := n\<rparr>"
    using renumber_elem by blast
  with zs show ?thesis by blast
qed

lemma nonempty_reorderTopics:
  "nonempty_ids (topics s) \<Longrightarrow> nonempty_ids (topics (reorderTopics a b s))"
  by (auto simp: nonempty_ids_def reorderTopics_def Let_def split: if_splits
      dest!: reorderArray_elem)

lemma nonempty_reorderSubtopics:
  "nonempty_ids (topics s) \<Longrightarrow> nonempty_ids (topics (reorderSubtopics t a b s))"
  by (auto simp: nonempty_ids_def reorderSubtopics_def Let_def split: if_splits
      dest!: reorderArray_elem)

lemma nonempty_reorderQuestions:
  "nonempty_ids (topics s) \<Longrightarrow> nonempty_ids (topics (reorderQuestions t sb a b s))"
  by (auto simp: nonempty_ids_def reorderQuestions_def Let_def split: if_splits
      dest!: reorderArray_elem)

lemma assign_ids_nonempty: "i \<in> set (assign_ids uuids k qs) \<Longrightarrow> i \<noteq> []"
  by (induction qs arbitrary: k)
     (auto simp: id_or_generate_def generateId_def Let_def split: option.splits if_splits)

lemma group_questions_ids:
  assumes "x \<in> set (group_questions parses rs tn sn)"
  shows "item_id x \<in> snd ` set rs"
proof -
  from assms obtain k q qid where "(k, (q, qid)) \<in> set (enumerate 0 rs)"
    and x: "x = make_question parses q qid tn sn k"
    by (auto simp: group_questions_def)
  then have "k < length rs" and "rs ! k = (q, qid)"
    by (auto simp: in_set_enumerate_eq)
  then have "(q, qid) \<in> set rs"
    using nth_mem [of k rs] by simp
  with x show ?thesis
    by (force simp: make_question_def)
qed

lemma in_map_case_prod:
  "x \<in> set (map (\<lambda>(i, y). f i y) ps) \<Longrightarrow> \<exists>i y. x = f i y"
  by auto

lemma group_subtopic_sel:
  "item_id (group_subtopic parses rs tid tn j sn) \<noteq> []"
  "questions (group_subtopic parses rs tid tn j sn)
     = group_questions parses (filter (\<lambda>r. subtopic_name (fst r) = sn) rs) tn sn"
  by (simp_all add: group_subtopic_def del: digits.simps)

lemma group_topic_sel:
  "item_id (group_topic parses rs i tn) \<noteq> []"
  "sb \<in> set (subtopics (group_topic parses rs i tn)) \<Longrightarrow>
   \<exists>j sn. sb = group_subtopic parses (filter (\<lambda>r. topic_name (fst r) = tn) rs)
     (''topic-'' @ digits i) tn j sn"
  by (auto simp add: group_topic_def Let_def simp del: digits.simps)

lemma nonempty_grouped:
  assumes "\<forall>r \<in> set rs. snd r \<noteq> []"
  shows "nonempty_ids (grouped_topics parses rs)"
  unfolding nonempty_ids_def
proof (intro ballI conjI)
  fix t assume "t \<in> set (grouped_topics parses rs)"
  then obtain i tn where t: "t = group_topic parses rs i tn"
    unfolding grouped_topics_def by (blast dest: in_map_case_prod)
  show "item_id t \<noteq> []"
    unfolding t by (rule group_topic_sel)
  fix sb assume "sb \<in> set (subtopics t)"
  then obtain j sn where sb: "sb = group_subtopic parses
      (filter (\<lambda>r. topic_name (fst r) = tn) rs) (''topic-'' @ digits i) tn j sn"
    unfolding t by (blast dest: group_topic_sel(2))
  show "item_id sb \<noteq> []"
    unfolding sb by (rule group_subtopic_sel)
  fix q assume "q \<in> set (questions sb)"
  then have "item_id q \<in> snd ` set (filter (\<lambda>r. subtopic_name (fst r) = sn)
      (filter (\<lambda>r. topic_name (fst r) = tn) rs))"
    unfolding sb group_subtopic_sel by (rule group_questions_ids)
  then obtain r where "r \<in> set rs" and "item_id q = snd r"
    by auto
  with assms show "item_id q \<noteq> []" by simp
qed

lemma transform_Inr:
  assumes "transformSheetData parses uuids d = Inr r"
  shows "\<exists>sh qs. doc_sheet d = Some sh \<and> doc_records d = Some qs"
proof -
  have a: "\<not> (doc_sheet d = None \<or> doc_questions d = None)"
  proof
    assume "doc_sheet d = None \<or> doc_questions d = None"
    then have "transformSheetData parses uuids d = Inl (Error ''Invalid sheet data format'')"
      by (rule transform_fails)
    with assms show False by simp
  qed
  have "doc_records d \<noteq> None"
  proof
    assume "doc_records d = None"
    with a obtain m where "transformSheetData parses uuids d = Inl (TypeError m)"
      using transform_type_error [of d parses uuids] by auto
    with assms show False by simp
  qed
  with a show ?thesis by auto
qed

lemma nonempty_fetchSheetData:
  assumes "nonempty_ids (topics s)"
  shows "nonempty_ids (topics (fetchSheetData parses uuids d s))"
proof (cases "transformSheetData parses uuids d")
  case (Inl e)
  with assms show ?thesis by (simp add: fetchSheetData_def)
next
  case (Inr r)
  then obtain sh qs where "doc_sheet d = Some sh" "doc_records d = Some qs"
    using transform_Inr by blast
  then have "snd r = grouped_topics parses (zip qs (assign_ids uuids 0 qs))"
    using Inr transform_grouped [of d sh qs parses uuids] by auto
  moreover have "\<forall>p \<in> set (zip qs (assign_ids uuids 0 qs)). snd p \<noteq> []"
  proof
    fix p assume "p \<in> set (zip qs (assign_ids uuids 0 qs))"
    then have "snd p \<in> set (assign_ids uuids 0 qs)"
      using set_zip_rightD [of "fst p" "snd p" qs "assign_ids uuids 0 qs"] by simp
    then show "snd p \<noteq> []"
      by (rule assign_ids_nonempty)
  qed
  ultimately have "nonempty_ids (snd r)"
    by (simp add: nonempty_grouped)
  with assms show ?thesis
    by (auto simp: fetchSheetData_def Inr split: prod.split)
qed

lemma filters_fetchSheetData:
  "filterDifficulty (fetchSheetData parses uuids d s) = filterDifficulty s"
  "filterStatus (fetchSheetData parses uuids d s) = filterStatus s"
  by (simp_all add: fetchSheetData_def Let_def split: sum.split prod.split)

text \<open>
  In every state of the store no id is the empty string, and neither filter is: the
  guards \<^verbatim>\<open>!activeId\<close>, \<^verbatim>\<open>!topicId\<close> and \<^verbatim>\<open>filterDifficulty && ...\<close> never stop an
  action on an id found in the tree, or a filter that the store holds.
\<close>

lemma reachable_invariant:
  "reachable s \<Longrightarrow>
   nonempty_ids (topics s) \<and> filterDifficulty s \<noteq> [] \<and> filterStatus s \<noteq> []"
proof (induction rule: reachable.induct)
  case initial
  show ?case
    by (simp add: initial_state_def nonempty_ids_Nil FILTER_ALL_def)
next
  case (fetchSheetData s parses uuids d)
  then show ?case by (simp add: nonempty_fetchSheetData filters_fetchSheetData)
next
  case (resetProgress s)
  then show ?case by (simp add: resetProgress_def nonempty_ids_Nil)
next
  case (toggleTopicExpansion s t)
  then show ?case by (simp add: toggleTopicExpansion_def)
next
  case (toggleSubtopicExpansion s sb)
  then show ?case by (simp add: toggleSubtopicExpansion_def)
next
  case (expandAllTopics s)
  then show ?case by (simp add: expandAllTopics_def)
next
  case (collapseAllTopics s)
  then show ?case by (simp add: collapseAllTopics_def)
next
  case (setSearchQuery s v)
  then show ?case by (simp add: setSearchQuery_def)
next
  case (setFilterDifficulty s f)
  then show ?case by (simp add: setFilterDifficulty_def FILTER_ALL_def)
next
  case (setFilterStatus s f)
  then show ?case by (simp add: setFilterStatus_def FILTER_ALL_def)
next
  case (toggleTheme s)
  then show ?case by (simp add: toggleTheme_def)
next
  case (toggleStats s)
  then show ?case by (simp add: toggleStats_def)
next
  case (toggleQuestionSolved s q)
  then show ?case
    using nonempty_toggleQuestionSolved [of s q] by (simp add: toggleQuestionSolved_def)
next
  case (toggleAllInSubtopic s t sb v)
  then show ?case
    using nonempty_toggleAllInSubtopic [of s t sb v] by (simp add: toggleAllInSubtopic_def)
next
  case (updateQuestionNotes s q v)
  then show ?case
    using nonempty_updateQuestionNotes [of s q v] by (simp add: updateQuestionNotes_def)
next
  case (addTopic s uuid nm)
  then show ?case
    using nonempty_addTopic [of s uuid nm] by (simp add: addTopic_def Let_def)
next
  case (updateTopic s t nm)
  then show ?case
    using nonempty_updateTopic [of s t nm] by (simp add: updateTopic_def Let_def)
next
  case (deleteTopic s t)
  then show ?case
    using nonempty_deleteTopic [of s t] by (simp add: deleteTopic_def Let_def)
next
  case (addSubtopic s uuid t nm)
  then show ?case
    using nonempty_addSubtopic [of s uuid t nm] by (simp add: addSubtopic_def Let_def)
next
  case (updateSubtopic s t sb nm)
  then show ?case
    using nonempty_updateSubtopic [of s t sb nm] by (simp add: updateSubtopic_def Let_def)
next
  case (deleteSubtopic s t sb)
  then show ?case
    using nonempty_deleteSubtopic [of s t sb] by (simp add: deleteSubtopic_def Let_def)
next
  case (addQuestion s parses uuid t sb qd)
  then show ?case
    using nonempty_addQuestion [of s parses uuid t sb qd]
    by (simp add: addQuestion_def Let_def split: option.split)
next
  case (updateQuestion s parses t sb q qd)
  then show ?case
    using nonempty_updateQuestion [of s parses t sb q qd]
    by (simp add: updateQuestion_def split: option.split)
next
  case (deleteQuestion s t sb q)
  then show ?case
    using nonempty_deleteQuestion [of s t sb q] by (simp add: deleteQuestion_def)
next
  case (reorderTopics s a b)
  then show ?case
    using nonempty_reorderTopics [of s a b] by (simp add: reorderTopics_def Let_def)
next
  case (reorderSubtopics s t a b)
  then show ?case
    using nonempty_reorderSubtopics [of s t a b] by (simp add: reorderSubtopics_def)
next
  case (reorderQuestions s t sb a b)
  then show ?case
    using nonempty_reorderQuestions [of s t sb a b] by (simp add: reorderQuestions_def)
qed

lemma reachable_ids:
  assumes "reachable s"
  shows "a \<in> ids (topics s) \<Longrightarrow> a \<noteq> []"
    and "t \<in> set (topics s) \<Longrightarrow> a \<in> ids (subtopics t) \<Longrightarrow> a \<noteq> []"
    and "t \<in> set (topics s) \<Longrightarrow> sb \<in> set (subtopics t) \<Longrightarrow> a \<in> ids (questions sb)
         \<Longrightarrow> a \<noteq> []"
proof -
  have n: "nonempty_ids (topics s)"
    using reachable_invariant [OF assms] by simp
  show "a \<in> ids (topics s) \<Longrightarrow> a \<noteq> []"
    using n unfolding nonempty_ids_def ids_def by fastforce
  show "t \<in> set (topics s) \<Longrightarrow> a \<in> ids (subtopics t) \<Longrightarrow> a \<noteq> []"
    using n unfolding nonempty_ids_def ids_def by fastforce
  show "t \<in> set (topics s) \<Longrightarrow> sb \<in> set (subtopics t) \<Longrightarrow> a \<in> ids (questions sb)
         \<Longrightarrow> a \<noteq> []"
    using n unfolding nonempty_ids_def ids_def by fastforce
qed

end
